theory Spec2Isabelle
  imports Main "HOL-Library.AList"
begin

section \<open>The view tracker of \<open>main.py\<close>\<close>

text \<open>
  The program polls a video platform, keeps a catalogue of the channel's videos
  (\<open>videos.csv\<close>), the last view count seen for every video (\<open>allvideoviews.csv\<close>) and a
  running total of new views (\<open>sumtotal.txt\<close>). This theory embeds the functions
  \<open>save_videos_csv\<close>, \<open>fetch_current_views\<close> and \<open>update_allvideoviews\<close>.

  Modelling decisions.
  \<^item> Python integers are \<open>int\<close>. A string is the list of its code points, which are taken
    to be below 256 (the characters of \<open>string\<close>); on these \<open>strip\<close> and \<open>int\<close> are as in
    Python. White space and digits of Unicode beyond 255 cannot be written, and the
    interpreter's configurable limit on the number of digits of a conversion is not
    modelled.
  \<^item> A CSV file is its list of data rows, each row a record of its (string) fields: the
    header line is the one the program writes, every row has all its fields, and the
    \<open>csv\<close> module gives back the fields it was given. A file is absent, empty (size 0),
    or a table. Failures of the file system are not modelled.
  \<^item> The dictionary \<open>existing\<close> is an association list with distinct keys in insertion
    order; \<open>existing[vid] = ...\<close> is \<open>AList.update\<close>, which replaces in place or appends.
  \<^item> \<open>datetime.now().isoformat()\<close> is the parameter \<open>now\<close>; the remote API is a
    state-passing function, a parameter of the fetcher, whose responses have the fields
    the program reads (\<open>items\<close>, \<open>id\<close>, \<open>statistics\<close>).
  \<^item> An exception is a value \<open>Inl e\<close> of a sum type.
\<close>

subsection \<open>Python's \<open>str.strip\<close>, \<open>int\<close> and \<open>str\<close> on integers\<close>

datatype py_error = ValueError | ApiError string

text \<open>
  The characters \<open>str.strip()\<close> removes: those for which \<open>str.isspace\<close> holds, among the
  code points below 256.
\<close>

definition is_space :: "char \<Rightarrow> bool" where
  "is_space c = ((of_char c :: nat) \<in> {9, 10, 11, 12, 13, 28, 29, 30, 31, 32, 133, 160})"

definition py_strip :: "string \<Rightarrow> string" where
  "py_strip s = rev (dropWhile is_space (rev (dropWhile is_space s)))"

text \<open>
  The characters \<open>int\<close> skips at both ends of its argument. They are fewer: the separators
  \<open>0x1C\<close> to \<open>0x1F\<close> are white space for \<open>strip\<close> and an error for \<open>int\<close>.
\<close>

definition int_space :: "char \<Rightarrow> bool" where
  "int_space c = ((of_char c :: nat) \<in> {9, 10, 11, 12, 13, 32, 133, 160})"

definition int_strip :: "string \<Rightarrow> string" where
  "int_strip s = rev (dropWhile int_space (rev (dropWhile int_space s)))"

definition is_digit :: "char \<Rightarrow> bool" where
  "is_digit c = (48 \<le> (of_char c :: nat) \<and> (of_char c :: nat) \<le> 57)"

definition digit_val :: "char \<Rightarrow> nat" where
  "digit_val c = of_char c - 48"

definition digit_char :: "nat \<Rightarrow> char" where
  "digit_char d = ''0123456789'' ! d"

text \<open>
  The digits of a decimal literal, read left to right. A single underscore is allowed
  between two digits, as in \<open>int('1_000')\<close>.
\<close>

fun digits_acc :: "nat \<Rightarrow> string \<Rightarrow> nat option" where
  "digits_acc a [] = Some a"
| "digits_acc a (c # cs) =
     (if is_digit c then digits_acc (10 * a + digit_val c) cs
      else if c = CHR ''_'' then
        (case cs of
           [] \<Rightarrow> None
         | d # _ \<Rightarrow> if is_digit d then digits_acc a cs else None)
      else None)"

definition digits :: "string \<Rightarrow> nat option" where
  "digits s =
     (case s of
        [] \<Rightarrow> None
      | c # cs \<Rightarrow> if is_digit c then digits_acc (digit_val c) cs else None)"

text \<open>\<open>int(s)\<close> for a string: \<open>None\<close> stands for the \<open>ValueError\<close> it raises.\<close>

definition py_int :: "string \<Rightarrow> int option" where
  "py_int s =
     (case int_strip s of
        [] \<Rightarrow> None
      | c # cs \<Rightarrow>
          if c = CHR ''-'' then map_option (\<lambda>n. - int n) (digits cs)
          else if c = CHR ''+'' then map_option int (digits cs)
          else map_option int (digits (c # cs)))"

fun str_nat :: "nat \<Rightarrow> string" where
  "str_nat n = (if n < 10 then [digit_char n] else str_nat (n div 10) @ [digit_char (n mod 10)])"

declare str_nat.simps [simp del]

text \<open>\<open>str(n)\<close> for an integer.\<close>

definition py_str :: "int \<Rightarrow> string" where
  "py_str n = (if n < 0 then CHR ''-'' # str_nat (nat (- n)) else str_nat (nat n))"

subsection \<open>The files\<close>

datatype 'r csv_file = Absent | Empty | Table "'r list"

text \<open>The rows a \<open>csv.DictReader\<close> yields; a file that does not exist is not opened.\<close>

fun csv_rows :: "'r csv_file \<Rightarrow> 'r list" where
  "csv_rows Absent = []"
| "csv_rows Empty = []"
| "csv_rows (Table rs) = rs"

record video =
  video_id :: string
  title :: string
  published_at :: string

record view_row =
  row_video_id :: string
  last_views :: string
  last_checked :: string

record files =
  videos_csv :: "video csv_file"
  all_views_csv :: "view_row csv_file"
  sumtotal_txt :: "string option"

definition no_files :: files where
  "no_files = \<lparr>videos_csv = Absent, all_views_csv = Absent, sumtotal_txt = None\<rparr>"

subsection \<open>\<open>update_allvideoviews\<close>\<close>

record stat =
  stat_video_id :: string
  current_views :: int

type_synonym existing = "(string \<times> (int \<times> string)) list"

text \<open>
  The loop over the rows of \<open>allvideoviews.csv\<close>: \<open>int(row["last_views"])\<close> may raise.
\<close>

fun load_rows :: "view_row list \<Rightarrow> existing \<Rightarrow> py_error + existing" where
  "load_rows [] ex = Inr ex"
| "load_rows (r # rs) ex =
     (case py_int (last_views r) of
        None \<Rightarrow> Inl ValueError
      | Some n \<Rightarrow> load_rows rs (AList.update (row_video_id r) (n, last_checked r) ex))"

definition load_existing :: "view_row csv_file \<Rightarrow> py_error + existing" where
  "load_existing f = load_rows (csv_rows f) []"

text \<open>
  The previous cumulative total: 0 when the file is missing, and 0 when \<open>int\<close> raises
  \<open>ValueError\<close>, which the \<open>try\<close> catches.
\<close>

definition load_cumulative_total :: "string option \<Rightarrow> int" where
  "load_cumulative_total f =
     (case f of
        None \<Rightarrow> 0
      | Some s \<Rightarrow> (case py_int (py_strip s) of Some n \<Rightarrow> n | None \<Rightarrow> 0))"

record loop_state =
  existing :: existing
  total_new_views :: int
  cumulative_total :: int

text \<open>The \<open>delta\<close> of one measurement against the dictionary as it stands.\<close>

definition delta :: "existing \<Rightarrow> stat \<Rightarrow> int" where
  "delta ex v =
     (case map_of ex (stat_video_id v) of
        Some (lv, lc) \<Rightarrow> max 0 (current_views v - lv)
      | None \<Rightarrow> current_views v)"

text \<open>The views a dictionary records, by id.\<close>

definition recorded_views :: "existing \<Rightarrow> (string \<rightharpoonup> int)" where
  "recorded_views ex = map_option fst \<circ> map_of ex"

text \<open>The body of the loop over \<open>api_callout\<close>.\<close>

definition reconcile_step :: "string \<Rightarrow> loop_state \<Rightarrow> stat \<Rightarrow> loop_state" where
  "reconcile_step now s v =
     (let d = delta (existing s) v in
      \<lparr>existing = AList.update (stat_video_id v) (current_views v, now) (existing s),
       total_new_views = total_new_views s + d,
       cumulative_total = cumulative_total s + d\<rparr>)"

fun reconcile :: "string \<Rightarrow> loop_state \<Rightarrow> stat list \<Rightarrow> loop_state" where
  "reconcile now s [] = s"
| "reconcile now s (v # vs) = reconcile now (reconcile_step now s v) vs"

definition write_row :: "string \<times> (int \<times> string) \<Rightarrow> view_row" where
  "write_row e =
     \<lparr>row_video_id = fst e, last_views = py_str (fst (snd e)), last_checked = snd (snd e)\<rparr>"

text \<open>What a run prints: the new views of the run and the cumulative total.\<close>

record report =
  new_views :: int
  cumulative :: int

definition update_allvideoviews :: "string \<Rightarrow> stat list \<Rightarrow> files \<Rightarrow> py_error + files \<times> report" where
  "update_allvideoviews now api_callout fs =
     (case load_existing (all_views_csv fs) of
        Inl e \<Rightarrow> Inl e
      | Inr ex \<Rightarrow>
          (let s = reconcile now
                     \<lparr>existing = ex, total_new_views = 0,
                      cumulative_total = load_cumulative_total (sumtotal_txt fs)\<rparr>
                     api_callout
           in Inr (fs\<lparr>all_views_csv := Table (map write_row (existing s)),
                      sumtotal_txt := Some (py_str (cumulative_total s))\<rparr>,
                   \<lparr>new_views = total_new_views s, cumulative = cumulative_total s\<rparr>)))"

text \<open>
  Repeated runs of the reconciler, each with its own time stamp and fetch batch, as the
  main loop performs them; an exception ends the loop.
\<close>

fun reconciler_runs :: "(string \<times> stat list) list \<Rightarrow> files \<Rightarrow> py_error + files" where
  "reconciler_runs [] fs = Inr fs"
| "reconciler_runs (r # rs) fs =
     (case update_allvideoviews (fst r) (snd r) fs of
        Inl e \<Rightarrow> Inl e
      | Inr out \<Rightarrow> reconciler_runs rs (fst out))"

text \<open>
  The sum the specification speaks of, written from its words: every measurement, in
  order, contributes \<open>max(0, current - previous)\<close>, and its full count when the id has
  no previously recorded views.
\<close>

fun spec_total :: "(string \<rightharpoonup> int) \<Rightarrow> stat list \<Rightarrow> int" where
  "spec_total prev [] = 0"
| "spec_total prev (v # vs) =
     (case prev (stat_video_id v) of
        None \<Rightarrow> current_views v
      | Some p \<Rightarrow> max 0 (current_views v - p))
     + spec_total (prev(stat_video_id v \<mapsto> current_views v)) vs"

subsection \<open>\<open>save_videos_csv\<close>\<close>

text \<open>
  The set \<open>existing_ids\<close> is read once, before the loop, and not extended by the loop.
  The file is opened for appending, which creates it; the header is written when its size
  is 0, so the result is always a table.
\<close>

definition save_videos_csv :: "video list \<Rightarrow> files \<Rightarrow> files" where
  "save_videos_csv videos fs =
     (let existing_ids = set (map video_id (csv_rows (videos_csv fs)))
      in fs\<lparr>videos_csv :=
              Table (csv_rows (videos_csv fs) @ filter (\<lambda>v. video_id v \<notin> existing_ids) videos)\<rparr>)"

fun save_all :: "video list list \<Rightarrow> files \<Rightarrow> files" where
  "save_all [] fs = fs"
| "save_all (vs # vss) fs = save_all vss (save_videos_csv vs fs)"

subsection \<open>\<open>fetch_current_views\<close>\<close>

text \<open>
  An item of a response: its id and, when present, the \<open>viewCount\<close> of its statistics (a
  string). The client answers a request (the comma-separated ids) with the items or with an
  exception, and may change its state.
\<close>

record api_item =
  item_id :: string
  viewCount :: "string option"

type_synonym 'st client = "'st \<Rightarrow> string \<Rightarrow> (py_error + api_item list) \<times> 'st"

fun join_comma :: "string list \<Rightarrow> string" where
  "join_comma [] = []"
| "join_comma [x] = x"
| "join_comma (x # y # ys) = x @ CHR '','' # join_comma (y # ys)"

text \<open>\<open>int(item["statistics"].get("viewCount", 0))\<close>\<close>

definition item_stat :: "api_item \<Rightarrow> py_error + stat" where
  "item_stat it =
     (case viewCount it of
        None \<Rightarrow> Inr \<lparr>stat_video_id = item_id it, current_views = 0\<rparr>
      | Some s \<Rightarrow>
          (case py_int s of
             None \<Rightarrow> Inl ValueError
           | Some n \<Rightarrow> Inr \<lparr>stat_video_id = item_id it, current_views = n\<rparr>))"

fun append_items :: "stat list \<Rightarrow> api_item list \<Rightarrow> py_error + stat list" where
  "append_items all_stats [] = Inr all_stats"
| "append_items all_stats (it # its) =
     (case item_stat it of
        Inl e \<Rightarrow> Inl e
      | Inr v \<Rightarrow> append_items (all_stats @ [v]) its)"

function fetch_loop ::
  "'st client \<Rightarrow> string list \<Rightarrow> nat \<Rightarrow> stat list \<Rightarrow> 'st \<Rightarrow> (py_error + stat list) \<times> 'st" where
  "fetch_loop youtube video_ids i all_stats st =
     (if i < length video_ids then
        (case youtube st (join_comma (take 50 (drop i video_ids))) of
           (Inl e, st') \<Rightarrow> (Inl e, st')
         | (Inr items, st') \<Rightarrow>
             (case append_items all_stats items of
                Inl e \<Rightarrow> (Inl e, st')
              | Inr all_stats' \<Rightarrow> fetch_loop youtube video_ids (i + 50) all_stats' st'))
      else (Inr all_stats, st))"
  by pat_completeness auto
termination
  by (relation "measure (\<lambda>(youtube, video_ids, i, all_stats, st). length video_ids - i)") auto

declare fetch_loop.simps [simp del]

definition fetch_current_views ::
  "'st client \<Rightarrow> string list \<Rightarrow> 'st \<Rightarrow> (py_error + stat list) \<times> 'st" where
  "fetch_current_views youtube video_ids st = fetch_loop youtube video_ids 0 [] st"

text \<open>
  The fetcher in the words of the specification, written without the functions above. The
  list is cut into consecutive chunks of at most \<open>n\<close> identifiers.
\<close>

function spec_chunks :: "nat \<Rightarrow> 'a list \<Rightarrow> 'a list list" where
  "spec_chunks n xs = (if n = 0 \<or> xs = [] then [] else take n xs # spec_chunks n (drop n xs))"
  by pat_completeness auto
termination
  by (relation "measure (\<lambda>(n, xs). length xs)") auto

declare spec_chunks.simps [simp del]

text \<open>A request names the identifiers of its chunk, each but the first behind a comma.\<close>

definition spec_request :: "string list \<Rightarrow> string" where
  "spec_request c = (case c of [] \<Rightarrow> [] | x # xs \<Rightarrow> x @ concat (map (\<lambda>y. CHR '','' # y) xs))"

text \<open>The pieces of a string between its commas, as \<open>str.split(',')\<close> gives them.\<close>

fun split_comma :: "string \<Rightarrow> string list" where
  "split_comma [] = [[]]"
| "split_comma (c # cs) =
     (if c = CHR '','' then [] # split_comma cs
      else (case split_comma cs of [] \<Rightarrow> [[c]] | w # ws \<Rightarrow> (c # w) # ws))"

text \<open>
  The pair of an item: its id and its view count, 0 when the count is missing. A count
  that is present has to read as an integer.
\<close>

definition spec_readable :: "api_item \<Rightarrow> bool" where
  "spec_readable it = (case viewCount it of None \<Rightarrow> True | Some s \<Rightarrow> py_int s \<noteq> None)"

definition spec_pair :: "api_item \<Rightarrow> stat" where
  "spec_pair it =
     \<lparr>stat_video_id = item_id it,
      current_views = (case viewCount it of None \<Rightarrow> 0 | Some s \<Rightarrow> the (py_int s))\<rparr>"

definition spec_pairs :: "api_item list \<Rightarrow> py_error + stat list" where
  "spec_pairs items =
     (if list_all spec_readable items then Inr (map spec_pair items) else Inl ValueError)"

text \<open>
  One lookup is issued per chunk, in order, and the pairs of the responses are
  concatenated; an exception ends the fetch.
\<close>

fun spec_lookups ::
  "'st client \<Rightarrow> string list list \<Rightarrow> 'st \<Rightarrow> (py_error + stat list) \<times> 'st" where
  "spec_lookups youtube [] st = (Inr [], st)"
| "spec_lookups youtube (c # cs) st =
     (case youtube st (spec_request c) of
        (Inl e, st') \<Rightarrow> (Inl e, st')
      | (Inr items, st') \<Rightarrow>
          (case spec_pairs items of
             Inl e \<Rightarrow> (Inl e, st')
           | Inr stats \<Rightarrow>
               (case spec_lookups youtube cs st' of
                  (Inl e, st'') \<Rightarrow> (Inl e, st'')
                | (Inr rest, st'') \<Rightarrow> (Inr (stats @ rest), st''))))"

section \<open>Properties\<close>

subsection \<open>Printing and reading integers\<close>



lemma digit_cases:
  assumes "d < (10::nat)"
  shows "d = 0 \<or> d = 1 \<or> d = 2 \<or> d = 3 \<or> d = 4 \<or> d = 5 \<or> d = 6 \<or> d = 7 \<or> d = 8 \<or> d = 9"
  using assms by arith

lemma is_digit_digit_char: "d < 10 \<Longrightarrow> is_digit (digit_char d)"
  by (drule digit_cases) (auto simp: is_digit_def digit_char_def)

lemma digit_val_digit_char: "d < 10 \<Longrightarrow> digit_val (digit_char d) = d"
  by (drule digit_cases) (auto simp: digit_val_def digit_char_def)

lemma not_space_digit: "is_digit c \<Longrightarrow> \<not> is_space c"
  by (auto simp: is_digit_def is_space_def)

lemma not_int_space_digit: "is_digit c \<Longrightarrow> \<not> int_space c"
  by (auto simp: is_digit_def int_space_def)

lemma str_nat_digits: "c \<in> set (str_nat n) \<Longrightarrow> is_digit c"
proof (induction n arbitrary: c rule: str_nat.induct)
  case (1 n)
  show ?case
  proof (cases "n < 10")
    case True
    with "1.prems" show ?thesis
      by (simp add: str_nat.simps [of n] is_digit_digit_char)
  next
    case False
    with "1.prems" "1.IH" show ?thesis
      by (auto simp: str_nat.simps [of n] is_digit_digit_char)
  qed
qed

lemma str_nat_nonempty: "str_nat n \<noteq> []"
  by (subst str_nat.simps) simp

lemma digits_acc_snoc:
  "\<forall>c\<in>set xs. is_digit c \<Longrightarrow> is_digit d \<Longrightarrow>
   digits_acc a (xs @ [d]) = map_option (\<lambda>b. 10 * b + digit_val d) (digits_acc a xs)"
  by (induction xs arbitrary: a) auto

lemma digits_acc_digits: "\<forall>c\<in>set xs. is_digit c \<Longrightarrow> xs \<noteq> [] \<Longrightarrow> digits xs = digits_acc 0 xs"
  by (cases xs) (auto simp: digits_def)

lemma digits_acc_str_nat: "digits_acc 0 (str_nat n) = Some n"
proof (induction n rule: str_nat.induct)
  case (1 n)
  show ?case
  proof (cases "n < 10")
    case True
    then show ?thesis
      by (simp add: str_nat.simps [of n] is_digit_digit_char digit_val_digit_char)
  next
    case False
    then have "digits_acc 0 (str_nat (n div 10)) = Some (n div 10)"
      using "1.IH" by simp
    with False show ?thesis
      by (simp add: str_nat.simps [of n] digits_acc_snoc str_nat_digits
          is_digit_digit_char digit_val_digit_char)
  qed
qed

lemma digits_str_nat: "digits (str_nat n) = Some n"
  by (simp add: digits_acc_digits str_nat_digits str_nat_nonempty digits_acc_str_nat)

lemma hd_str_nat: "is_digit (hd (str_nat n))"
  using str_nat_digits [of "hd (str_nat n)" n] str_nat_nonempty [of n] by simp

lemma last_str_nat: "is_digit (last (str_nat n))"
  using str_nat_digits [of "last (str_nat n)" n] str_nat_nonempty [of n] by simp

lemma py_strip_id: "s \<noteq> [] \<Longrightarrow> \<not> is_space (hd s) \<Longrightarrow> \<not> is_space (last s) \<Longrightarrow> py_strip s = s"
proof -
  assume ne: "s \<noteq> []" and h: "\<not> is_space (hd s)" and l: "\<not> is_space (last s)"
  from ne h have a: "dropWhile is_space s = s"
    by (cases s) auto
  from ne l have "dropWhile is_space (rev s) = rev s"
    by (cases s rule: rev_cases) auto
  with a show ?thesis by (simp add: py_strip_def)
qed

lemma int_strip_id:
  assumes "s \<noteq> []" and "\<not> int_space (hd s)" and "\<not> int_space (last s)"
  shows "int_strip s = s"
proof -
  from assms(1,2) have a: "dropWhile int_space s = s"
    by (cases s) auto
  from assms(1,3) have "dropWhile int_space (rev s) = rev s"
    by (cases s rule: rev_cases) auto
  with a show ?thesis by (simp add: int_strip_def)
qed

lemma py_strip_py_str: "py_strip (py_str n) = py_str n"
proof (rule py_strip_id)
  show "py_str n \<noteq> []" by (simp add: py_str_def str_nat_nonempty)
  show "\<not> is_space (hd (py_str n))"
    using hd_str_nat [of "nat n"] by (auto simp: py_str_def is_space_def dest: not_space_digit)
  show "\<not> is_space (last (py_str n))"
    using last_str_nat [of "nat n"] last_str_nat [of "nat (- n)"]
    by (auto simp: py_str_def str_nat_nonempty dest: not_space_digit)
qed

lemma int_strip_py_str: "int_strip (py_str n) = py_str n"
proof (rule int_strip_id)
  show "py_str n \<noteq> []" by (simp add: py_str_def str_nat_nonempty)
  show "\<not> int_space (hd (py_str n))"
  proof (cases "n < 0")
    case True
    then show ?thesis by (simp add: py_str_def int_space_def)
  next
    case False
    then show ?thesis
      using hd_str_nat [of "nat n"] by (simp add: py_str_def not_int_space_digit)
  qed
  show "\<not> int_space (last (py_str n))"
    using last_str_nat [of "nat n"] last_str_nat [of "nat (- n)"]
    by (simp add: py_str_def str_nat_nonempty not_int_space_digit)
qed

lemma py_int_py_str: "py_int (py_str n) = Some n"
proof (cases "n < 0")
  case True
  then show ?thesis
    by (simp add: py_int_def int_strip_py_str) (simp add: py_str_def digits_str_nat)
next
  case False
  obtain c cs where s: "str_nat (nat n) = c # cs"
    using str_nat_nonempty [of "nat n"] by (cases "str_nat (nat n)") auto
  have "is_digit c" using hd_str_nat [of "nat n"] s by simp
  then have "c \<noteq> CHR ''-''" "c \<noteq> CHR ''+''"
    by (auto simp: is_digit_def)
  moreover have "digits (c # cs) = Some (nat n)"
    using digits_str_nat [of "nat n"] s by simp
  ultimately show ?thesis using False s
    by (simp add: py_int_def int_strip_py_str) (simp add: py_str_def)
qed

subsection \<open>The loop of the reconciler\<close>

lemma reconcile_append:
  "reconcile now s (xs @ ys) = reconcile now (reconcile now s xs) ys"
  by (induction xs arbitrary: s) simp_all

lemma reconcile_snoc:
  "reconcile now s (xs @ [v]) = reconcile_step now (reconcile now s xs) v"
  by (simp add: reconcile_append)

lemma reconcile_untouched:
  "k \<notin> stat_video_id ` set xs \<Longrightarrow>
   map_of (existing (reconcile now s xs)) k = map_of (existing s) k"
  by (induction xs arbitrary: s) (simp_all add: reconcile_step_def Let_def update_conv')

lemma reconcile_distinct:
  "distinct (map fst (existing s)) \<Longrightarrow> distinct (map fst (existing (reconcile now s xs)))"
  by (induction xs arbitrary: s) (simp_all add: reconcile_step_def Let_def distinct_update)

lemma reconcile_keys:
  "fst ` set (existing (reconcile now s xs)) = fst ` set (existing s) \<union> stat_video_id ` set xs"
  by (induction xs arbitrary: s) (auto simp: reconcile_step_def Let_def dom_update)

lemma delta_nonneg_first:
  "(stat_video_id v \<notin> fst ` set ex \<longrightarrow> 0 \<le> current_views v) \<Longrightarrow> 0 \<le> delta ex v"
proof (cases "map_of ex (stat_video_id v)")
  case None
  assume "stat_video_id v \<notin> fst ` set ex \<longrightarrow> 0 \<le> current_views v"
  moreover from None have "stat_video_id v \<notin> fst ` set ex"
    by (simp add: map_of_eq_None_iff)
  ultimately show ?thesis
    using None by (simp add: delta_def)
next
  case (Some e)
  then show ?thesis
    by (simp add: delta_def split: prod.splits)
qed

lemma reconcile_mono_first:
  assumes "\<forall>i<length xs. stat_video_id (xs ! i) \<notin> fst ` set (existing s) \<longrightarrow>
             stat_video_id (xs ! i) \<notin> stat_video_id ` set (take i xs) \<longrightarrow>
             0 \<le> current_views (xs ! i)"
  shows "cumulative_total s \<le> cumulative_total (reconcile now s xs) \<and>
         total_new_views s \<le> total_new_views (reconcile now s xs)"
  using assms
proof (induction xs arbitrary: s)
  case Nil
  then show ?case by simp
next
  case (Cons v vs)
  have "stat_video_id v \<notin> fst ` set (existing s) \<longrightarrow> 0 \<le> current_views v"
    using Cons.prems [rule_format, of 0] by simp
  then have d: "0 \<le> delta (existing s) v"
    by (rule delta_nonneg_first)
  have keys: "fst ` set (existing (reconcile_step now s v)) =
      insert (stat_video_id v) (fst ` set (existing s))"
    by (simp add: reconcile_step_def Let_def dom_update)
  have "\<forall>i<length vs. stat_video_id (vs ! i) \<notin> fst ` set (existing (reconcile_step now s v)) \<longrightarrow>
             stat_video_id (vs ! i) \<notin> stat_video_id ` set (take i vs) \<longrightarrow>
             0 \<le> current_views (vs ! i)"
  proof (intro allI impI)
    fix i
    assume i: "i < length vs"
      and new: "stat_video_id (vs ! i) \<notin> fst ` set (existing (reconcile_step now s v))"
      and first: "stat_video_id (vs ! i) \<notin> stat_video_id ` set (take i vs)"
    from i have "Suc i < length (v # vs)" by simp
    moreover from new have "stat_video_id ((v # vs) ! Suc i) \<notin> fst ` set (existing s)"
      by (simp add: keys)
    moreover from new first
    have "stat_video_id ((v # vs) ! Suc i) \<notin> stat_video_id ` set (take (Suc i) (v # vs))"
      by (simp add: keys)
    ultimately have "0 \<le> current_views ((v # vs) ! Suc i)"
      by (rule Cons.prems [rule_format])
    then show "0 \<le> current_views (vs ! i)" by simp
  qed
  from Cons.IH [OF this] d show ?case
    by (simp add: reconcile_step_def Let_def)
qed

lemma load_written_total: "load_cumulative_total (Some (py_str n)) = n"
  by (simp add: load_cumulative_total_def py_strip_py_str py_int_py_str)

lemma reconcile_totals_together:
  "total_new_views (reconcile now s xs) - total_new_views s =
   cumulative_total (reconcile now s xs) - cumulative_total s"
proof (induction xs arbitrary: s)
  case Nil
  then show ?case by simp
next
  case (Cons v vs)
  show ?case
    using Cons.IH [of "reconcile_step now s v"]
    by (simp add: reconcile_step_def Let_def)
qed

lemma run_Inr:
  "update_allvideoviews now xs fs = Inr (fs', rep) \<longleftrightarrow>
   (\<exists>ex. load_existing (all_views_csv fs) = Inr ex \<and>
      fs' = fs\<lparr>all_views_csv := Table (map write_row (existing (reconcile now
                 \<lparr>existing = ex, total_new_views = 0,
                  cumulative_total = load_cumulative_total (sumtotal_txt fs)\<rparr> xs))),
               sumtotal_txt := Some (py_str (cumulative_total (reconcile now
                 \<lparr>existing = ex, total_new_views = 0,
                  cumulative_total = load_cumulative_total (sumtotal_txt fs)\<rparr> xs)))\<rparr> \<and>
      rep = \<lparr>new_views = total_new_views (reconcile now
                 \<lparr>existing = ex, total_new_views = 0,
                  cumulative_total = load_cumulative_total (sumtotal_txt fs)\<rparr> xs),
             cumulative = cumulative_total (reconcile now
                 \<lparr>existing = ex, total_new_views = 0,
                  cumulative_total = load_cumulative_total (sumtotal_txt fs)\<rparr> xs)\<rparr>)"
  by (auto simp: update_allvideoviews_def Let_def split: sum.splits)

subsection \<open>Reading back the table a run has written\<close>

lemma update_fresh: "k \<notin> fst ` set al \<Longrightarrow> AList.update k v al = al @ [(k, v)]"
  by (induction al) auto

lemma write_row_fields:
  "row_video_id (write_row e) = fst e"
  "last_views (write_row e) = py_str (fst (snd e))"
  "last_checked (write_row e) = snd (snd e)"
  by (simp_all add: write_row_def)

lemma load_rows_written:
  "distinct (map fst (acc @ ex)) \<Longrightarrow> load_rows (map write_row ex) acc = Inr (acc @ ex)"
proof (induction ex arbitrary: acc)
  case Nil
  then show ?case by simp
next
  case (Cons e ex)
  obtain k n t where e: "e = (k, (n, t))"
    by (cases e) auto
  from Cons.prems have fresh: "k \<notin> fst ` set acc"
    by (auto simp: e)
  from Cons.prems have "distinct (map fst ((acc @ [e]) @ ex))"
    by simp
  then have "load_rows (map write_row ex) (acc @ [e]) = Inr ((acc @ [e]) @ ex)"
    by (rule Cons.IH)
  with fresh show ?case
    by (simp add: e write_row_fields py_int_py_str update_fresh)
qed

lemma load_existing_written:
  "distinct (map fst ex) \<Longrightarrow> load_existing (Table (map write_row ex)) = Inr ex"
  using load_rows_written [of "[]" ex] by (simp add: load_existing_def)

lemma load_rows_distinct:
  "load_rows rs acc = Inr ex \<Longrightarrow> distinct (map fst acc) \<Longrightarrow> distinct (map fst ex)"
  by (induction rs arbitrary: acc) (auto simp: distinct_update split: option.splits)

lemma load_existing_distinct: "load_existing f = Inr ex \<Longrightarrow> distinct (map fst ex)"
  using load_rows_distinct [of "csv_rows f" "[]" ex] by (simp add: load_existing_def)

lemma load_rows_keys:
  "load_rows rs acc = Inr ex \<Longrightarrow> fst ` set ex = fst ` set acc \<union> row_video_id ` set rs"
  by (induction rs arbitrary: acc) (auto simp: dom_update split: option.splits)

lemma load_rows_untouched:
  "load_rows rs acc = Inr ex \<Longrightarrow> k \<notin> row_video_id ` set rs \<Longrightarrow> map_of ex k = map_of acc k"
  by (induction rs arbitrary: acc) (auto simp: update_conv' split: option.splits)

lemma load_rows_append:
  "load_rows (rs1 @ rs2) acc =
   (case load_rows rs1 acc of Inl e \<Rightarrow> Inl e | Inr mid \<Rightarrow> load_rows rs2 mid)"
  by (induction rs1 arbitrary: acc) (auto split: option.splits)

lemma load_rows_last_wins:
  assumes "load_rows (rs1 @ r # rs2) acc = Inr ex"
    and "row_video_id r \<notin> row_video_id ` set rs2"
  shows "\<exists>n. py_int (last_views r) = Some n \<and> map_of ex (row_video_id r) = Some (n, last_checked r)"
proof -
  from assms(1) obtain mid where mid: "load_rows rs1 acc = Inr mid"
    and rest: "load_rows (r # rs2) mid = Inr ex"
    by (auto simp: load_rows_append split: sum.splits)
  from rest obtain n where n: "py_int (last_views r) = Some n"
    and tail: "load_rows rs2 (AList.update (row_video_id r) (n, last_checked r) mid) = Inr ex"
    by (auto split: option.splits)
  from load_rows_untouched [OF tail assms(2)] n show ?thesis
    by (simp add: update_conv')
qed

lemma map_of_filter_row:
  "distinct (map fst ex) \<Longrightarrow> map_of ex k = Some v \<Longrightarrow>
   filter (\<lambda>r. row_video_id r = k) (map write_row ex) = [write_row (k, v)]"
proof (induction ex)
  case Nil
  then show ?case by simp
next
  case (Cons e ex)
  show ?case
  proof (cases "fst e = k")
    case True
    with Cons.prems have "e = (k, v)" and "k \<notin> fst ` set ex"
      by (auto simp: prod_eq_iff)
    then have "filter (\<lambda>r. row_video_id r = k) (map write_row ex) = []"
      by (auto simp: filter_empty_conv write_row_fields)
    with \<open>e = (k, v)\<close> show ?thesis
      by (simp add: write_row_fields)
  next
    case False
    with Cons show ?thesis
      by (simp add: write_row_fields)
  qed
qed

lemma run_Inr_written:
  assumes "update_allvideoviews now xs fs = Inr (fs', rep)"
  obtains ex s where "load_existing (all_views_csv fs) = Inr ex"
    and "s = reconcile now \<lparr>existing = ex, total_new_views = 0,
               cumulative_total = load_cumulative_total (sumtotal_txt fs)\<rparr> xs"
    and "all_views_csv fs' = Table (map write_row (existing s))"
    and "sumtotal_txt fs' = Some (py_str (cumulative_total s))"
    and "rep = \<lparr>new_views = total_new_views s, cumulative = cumulative_total s\<rparr>"
    and "distinct (map fst (existing s))"
    and "load_existing (all_views_csv fs') = Inr (existing s)"
proof -
  from assms obtain ex where ex: "load_existing (all_views_csv fs) = Inr ex"
    and fs': "fs' = fs\<lparr>all_views_csv := Table (map write_row (existing (reconcile now
                 \<lparr>existing = ex, total_new_views = 0,
                  cumulative_total = load_cumulative_total (sumtotal_txt fs)\<rparr> xs))),
               sumtotal_txt := Some (py_str (cumulative_total (reconcile now
                 \<lparr>existing = ex, total_new_views = 0,
                  cumulative_total = load_cumulative_total (sumtotal_txt fs)\<rparr> xs)))\<rparr>"
    and rep: "rep = \<lparr>new_views = total_new_views (reconcile now
                 \<lparr>existing = ex, total_new_views = 0,
                  cumulative_total = load_cumulative_total (sumtotal_txt fs)\<rparr> xs),
             cumulative = cumulative_total (reconcile now
                 \<lparr>existing = ex, total_new_views = 0,
                  cumulative_total = load_cumulative_total (sumtotal_txt fs)\<rparr> xs)\<rparr>"
    by (auto simp: run_Inr)
  let ?s = "reconcile now \<lparr>existing = ex, total_new_views = 0,
               cumulative_total = load_cumulative_total (sumtotal_txt fs)\<rparr> xs"
  have d: "distinct (map fst (existing ?s))"
    using load_existing_distinct [OF ex] by (simp add: reconcile_distinct)
  show thesis
  proof (rule that [of ex ?s])
    show "load_existing (all_views_csv fs') = Inr (existing ?s)"
      using d by (simp add: fs' load_existing_written)
  qed (simp_all add: ex fs' rep d)
qed

text \<open>The equations that evaluate a run on concrete files.\<close>

lemmas run_eval = update_allvideoviews_def load_existing_def load_cumulative_total_def
  reconcile_step_def delta_def write_row_def Let_def py_int_def int_strip_def int_space_def py_strip_def is_space_def
  digits_def is_digit_def digit_val_def py_str_def str_nat.simps digit_char_def

subsection \<open>The totals of the loop\<close>

lemma reconcile_unchanged:
  "\<forall>v\<in>set xs. \<exists>t. map_of (existing s) (stat_video_id v) = Some (current_views v, t) \<Longrightarrow>
   total_new_views (reconcile now s xs) = total_new_views s \<and>
   cumulative_total (reconcile now s xs) = cumulative_total s"
proof (induction xs arbitrary: s)
  case Nil
  then show ?case by simp
next
  case (Cons v vs)
  from Cons.prems obtain t where t: "map_of (existing s) (stat_video_id v) = Some (current_views v, t)"
    by auto
  have "\<forall>w\<in>set vs. \<exists>t'. map_of (existing (reconcile_step now s v)) (stat_video_id w) =
      Some (current_views w, t')"
  proof
    fix w assume "w \<in> set vs"
    with Cons.prems obtain t' where "map_of (existing s) (stat_video_id w) = Some (current_views w, t')"
      by auto
    with t show "\<exists>t'. map_of (existing (reconcile_step now s v)) (stat_video_id w) =
      Some (current_views w, t')"
      by (cases "stat_video_id w = stat_video_id v")
        (auto simp: reconcile_step_def Let_def update_conv')
  qed
  from Cons.IH [OF this] t show ?case
    by (simp add: reconcile_step_def Let_def delta_def)
qed

lemma delta_views:
  "delta ex v =
   (case recorded_views ex (stat_video_id v) of
      None \<Rightarrow> current_views v
    | Some p \<Rightarrow> max 0 (current_views v - p))"
  by (simp add: delta_def recorded_views_def split: option.splits prod.splits)

lemma recorded_views_update:
  "recorded_views (AList.update k (n, t) ex) = (recorded_views ex)(k \<mapsto> n)"
  by (simp add: recorded_views_def update_conv' fun_eq_iff)

lemma recorded_views_step:
  "recorded_views (existing (reconcile_step now s v)) =
   (recorded_views (existing s))(stat_video_id v \<mapsto> current_views v)"
  by (simp add: reconcile_step_def Let_def recorded_views_update)

lemma cumulative_total_step:
  "cumulative_total (reconcile_step now s v) = cumulative_total s + delta (existing s) v"
  by (simp add: reconcile_step_def Let_def)

lemma reconcile_spec_total:
  "cumulative_total (reconcile now s xs) =
   cumulative_total s + spec_total (recorded_views (existing s)) xs"
proof (induction xs arbitrary: s)
  case Nil
  then show ?case by simp
next
  case (Cons v vs)
  have "cumulative_total (reconcile now s (v # vs)) =
      cumulative_total (reconcile_step now s v) +
      spec_total (recorded_views (existing (reconcile_step now s v))) vs"
    by (simp only: reconcile.simps Cons.IH)
  then show ?case
    by (simp only: recorded_views_step cumulative_total_step delta_views spec_total.simps
        add.assoc)
qed

lemma reconcile_views:
  "recorded_views (existing (reconcile now s xs)) =
   foldl (\<lambda>m v. m(stat_video_id v \<mapsto> current_views v)) (recorded_views (existing s)) xs"
proof (induction xs arbitrary: s)
  case Nil
  then show ?case by simp
next
  case (Cons v vs)
  have "recorded_views (existing (reconcile now s (v # vs))) =
      foldl (\<lambda>m v. m(stat_video_id v \<mapsto> current_views v))
        (recorded_views (existing (reconcile_step now s v))) vs"
    by (simp only: reconcile.simps Cons.IH)
  then show ?case
    by (simp only: recorded_views_step foldl_Cons)
qed

lemma spec_total_append:
  "spec_total prev (xs @ ys) =
   spec_total prev xs + spec_total (foldl (\<lambda>m v. m(stat_video_id v \<mapsto> current_views v)) prev xs) ys"
  by (induction xs arbitrary: prev) simp_all

lemma runs_total:
  "load_existing (all_views_csv fs) = Inr ex \<Longrightarrow>
   \<exists>fs' ex'. reconciler_runs rs fs = Inr fs' \<and>
     load_existing (all_views_csv fs') = Inr ex' \<and>
     load_cumulative_total (sumtotal_txt fs') =
       load_cumulative_total (sumtotal_txt fs) +
       spec_total (recorded_views ex) (concat (map snd rs)) \<and>
     (rs \<noteq> [] \<longrightarrow> (\<exists>n. sumtotal_txt fs' = Some (py_str n)))"
proof (induction rs arbitrary: fs ex)
  case Nil
  then show ?case by simp
next
  case (Cons r rs)
  let ?s = "reconcile (fst r) \<lparr>existing = ex, total_new_views = 0,
               cumulative_total = load_cumulative_total (sumtotal_txt fs)\<rparr> (snd r)"
  let ?fs1 = "fs\<lparr>all_views_csv := Table (map write_row (existing ?s)),
                 sumtotal_txt := Some (py_str (cumulative_total ?s))\<rparr>"
  have run: "update_allvideoviews (fst r) (snd r) fs =
      Inr (?fs1, \<lparr>new_views = total_new_views ?s, cumulative = cumulative_total ?s\<rparr>)"
    using Cons.prems by (simp add: update_allvideoviews_def Let_def)
  have "distinct (map fst (existing ?s))"
    using load_existing_distinct [OF Cons.prems] by (simp add: reconcile_distinct)
  then have load1: "load_existing (all_views_csv ?fs1) = Inr (existing ?s)"
    by (simp add: load_existing_written)
  from Cons.IH [OF load1, of ] obtain fs' ex' where
    runs: "reconciler_runs rs ?fs1 = Inr fs'" and
    load': "load_existing (all_views_csv fs') = Inr ex'" and
    total: "load_cumulative_total (sumtotal_txt fs') =
       load_cumulative_total (sumtotal_txt ?fs1) +
       spec_total (recorded_views (existing ?s)) (concat (map snd rs))" and
    written: "rs \<noteq> [] \<longrightarrow> (\<exists>n. sumtotal_txt fs' = Some (py_str n))"
    by blast
  have one: "load_cumulative_total (sumtotal_txt ?fs1) =
      load_cumulative_total (sumtotal_txt fs) + spec_total (recorded_views ex) (snd r)"
    using reconcile_spec_total [of "fst r" "\<lparr>existing = ex, total_new_views = 0,
               cumulative_total = load_cumulative_total (sumtotal_txt fs)\<rparr>" "snd r"]
    by (simp add: load_written_total)
  have views: "recorded_views (existing ?s) =
      foldl (\<lambda>m v. m(stat_video_id v \<mapsto> current_views v)) (recorded_views ex) (snd r)"
    using reconcile_views [of "fst r" "\<lparr>existing = ex, total_new_views = 0,
               cumulative_total = load_cumulative_total (sumtotal_txt fs)\<rparr>" "snd r"]
    by simp
  have sum: "load_cumulative_total (sumtotal_txt fs') =
       load_cumulative_total (sumtotal_txt fs) +
       spec_total (recorded_views ex) (concat (map snd (r # rs)))"
    using total one by (simp add: spec_total_append views)
  have w: "\<exists>n. sumtotal_txt fs' = Some (py_str n)"
  proof (cases "rs = []")
    case True
    with runs show ?thesis by auto
  next
    case False
    with written show ?thesis by simp
  qed
  from runs run have "reconciler_runs (r # rs) fs = Inr fs'"
    by simp
  with load' sum w show ?case
    by blast
qed

subsection \<open>The fetcher and the catalogue\<close>

lemma chunks_Nil: "spec_chunks n [] = []"
  by (simp add: spec_chunks.simps)

lemma chunks_step: "0 < n \<Longrightarrow> xs \<noteq> [] \<Longrightarrow> spec_chunks n xs = take n xs # spec_chunks n (drop n xs)"
  by (subst spec_chunks.simps) simp

lemma concat_chunks: "0 < n \<Longrightarrow> concat (spec_chunks n xs) = xs"
proof (induction n xs rule: spec_chunks.induct)
  case (1 n xs)
  then show ?case
    by (cases "xs = []") (simp_all add: chunks_Nil chunks_step)
qed

lemma chunks_sizes: "0 < n \<Longrightarrow> c \<in> set (spec_chunks n xs) \<Longrightarrow> c \<noteq> [] \<and> length c \<le> n"
proof (induction n xs rule: spec_chunks.induct)
  case (1 n xs)
  show ?case
  proof (cases "xs = []")
    case True
    with "1.prems" show ?thesis
      by (simp add: chunks_Nil)
  next
    case False
    with "1.prems" "1.IH" show ?thesis
      by (auto simp: chunks_step)
  qed
qed

lemma ceil_step:
  fixes m n :: nat
  assumes "0 < n" and "0 < m"
  shows "Suc ((m - n + n - 1) div n) = (m + n - 1) div n"
proof -
  have e: "m + n - 1 = (m - 1) + n"
    using assms(2) by linarith
  have "((m - 1) + n) div n = Suc ((m - 1) div n)"
    using assms(1) div_add_self2 [of n "m - 1"] by linarith
  then have r: "(m + n - 1) div n = Suc ((m - 1) div n)"
    by (simp only: e)
  show ?thesis
  proof (cases "n \<le> m")
    case True
    then have "m - n + n - 1 = m - 1"
      by linarith
    then show ?thesis
      by (simp only: r)
  next
    case False
    then have a: "m - n + n - 1 < n" and b: "m - 1 < n"
      using assms by linarith+
    have "(m - n + n - 1) div n = 0" and "(m - 1) div n = 0"
      using a b by (simp_all only: div_less)
    then show ?thesis
      by (simp only: r)
  qed
qed

lemma length_chunks: "0 < n \<Longrightarrow> length (spec_chunks n xs) = (length xs + n - 1) div n"
proof (induction n xs rule: spec_chunks.induct)
  case (1 n xs)
  show ?case
  proof (cases "xs = []")
    case True
    with "1.prems" show ?thesis
      by (simp add: chunks_Nil)
  next
    case False
    then have pos: "0 < length xs" by simp
    have "length (spec_chunks n (drop n xs)) = (length (drop n xs) + n - 1) div n"
      using "1.IH" "1.prems" False by simp
    moreover have "spec_chunks n xs = take n xs # spec_chunks n (drop n xs)"
      using "1.prems" False by (rule chunks_step)
    ultimately have "length (spec_chunks n xs) = Suc ((length xs - n + n - 1) div n)"
      by simp
    then show ?thesis
      by (simp only: ceil_step [OF "1.prems" pos])
  qed
qed

lemma join_comma_request: "join_comma c = spec_request c"
  by (induction c rule: join_comma.induct) (simp_all add: spec_request_def)

lemma split_comma_plain: "CHR '','' \<notin> set x \<Longrightarrow> split_comma x = [x]"
  by (induction x) auto

lemma split_comma_piece:
  "CHR '','' \<notin> set x \<Longrightarrow> split_comma (x @ CHR '','' # rest) = x # split_comma rest"
  by (induction x) auto

lemma split_join_comma:
  "c \<noteq> [] \<Longrightarrow> \<forall>x\<in>set c. CHR '','' \<notin> set x \<Longrightarrow> split_comma (join_comma c) = c"
  by (induction c rule: join_comma.induct) (simp_all add: split_comma_plain split_comma_piece)

lemma item_stat_pair:
  "item_stat it = (if spec_readable it then Inr (spec_pair it) else Inl ValueError)"
  by (auto simp: item_stat_def spec_readable_def spec_pair_def split: option.splits)

lemma append_items_pairs:
  "append_items acc items =
   (case spec_pairs items of Inl e \<Rightarrow> Inl e | Inr stats \<Rightarrow> Inr (acc @ stats))"
proof (induction items arbitrary: acc)
  case Nil
  then show ?case by (simp add: spec_pairs_def)
next
  case (Cons it its)
  show ?case
  proof (cases "spec_readable it")
    case False
    then show ?thesis
      by (simp add: item_stat_pair spec_pairs_def)
  next
    case True
    then show ?thesis
      using Cons.IH [of "acc @ [spec_pair it]"]
      by (simp add: item_stat_pair spec_pairs_def)
  qed
qed

lemma fetch_loop_chunks:
  "fetch_loop youtube video_ids i acc st =
   (case spec_lookups youtube (spec_chunks 50 (drop i video_ids)) st of
      (Inl e, st') \<Rightarrow> (Inl e, st')
    | (Inr rest, st') \<Rightarrow> (Inr (acc @ rest), st'))"
proof (induction youtube video_ids i acc st rule: fetch_loop.induct)
  case (1 youtube video_ids i all_stats st)
  show ?case
  proof (cases "i < length video_ids")
    case False
    then show ?thesis
      by (simp add: fetch_loop.simps [of youtube video_ids i] chunks_Nil)
  next
    case True
    then have ch: "spec_chunks 50 (drop i video_ids) =
        take 50 (drop i video_ids) # spec_chunks 50 (drop (i + 50) video_ids)"
      by (simp add: chunks_step add.commute)
    obtain res st' where call: "youtube st (join_comma (take 50 (drop i video_ids))) = (res, st')"
      by (cases "youtube st (join_comma (take 50 (drop i video_ids)))")
    then have call': "youtube st (spec_request (take 50 (drop i video_ids))) = (res, st')"
      by (simp only: join_comma_request)
    show ?thesis
    proof (cases res)
      case (Inl e)
      with True call call' show ?thesis
        by (simp add: fetch_loop.simps [of youtube video_ids i] ch)
    next
      case (Inr items)
      note items = this
      show ?thesis
      proof (cases "spec_pairs items")
        case (Inl e)
        then have "append_items all_stats items = Inl e"
          by (simp add: append_items_pairs [of all_stats])
        with True call call' items Inl show ?thesis
          by (simp add: fetch_loop.simps [of youtube video_ids i] ch)
      next
        case (Inr stats)
        then have acc: "append_items all_stats items = Inr (all_stats @ stats)"
          by (simp add: append_items_pairs [of all_stats])
        from "1.IH" [OF True call [symmetric] items acc]
        have "fetch_loop youtube video_ids (i + 50) (all_stats @ stats) st' =
          (case spec_lookups youtube (spec_chunks 50 (drop (i + 50) video_ids)) st' of
             (Inl e, st'') \<Rightarrow> (Inl e, st'')
           | (Inr rest, st'') \<Rightarrow> (Inr ((all_stats @ stats) @ rest), st''))" .
        with True call call' items Inr acc show ?thesis
          by (simp add: fetch_loop.simps [of youtube video_ids i] ch split: prod.splits sum.splits)
      qed
    qed
  qed
qed

lemma spec_lookups_log:
  assumes "\<forall>req. \<exists>items. resp req = Inr items \<and> list_all spec_readable items"
  shows "spec_lookups (\<lambda>log req. (resp req, log @ [req])) cs log0 =
           (Inr (concat (map (\<lambda>c. map spec_pair (projr (resp (spec_request c)))) cs)),
            log0 @ map spec_request cs)"
proof (induction cs arbitrary: log0)
  case Nil
  then show ?case by simp
next
  case (Cons c cs)
  from assms obtain items where r: "resp (spec_request c) = Inr items"
    and a: "list_all spec_readable items"
    by blast
  from a have p: "spec_pairs items = Inr (map spec_pair items)"
    by (simp add: spec_pairs_def)
  show ?case
    using Cons.IH [of "log0 @ [spec_request c]"] r p by simp
qed

lemma save_videos_csv_rows:
  "csv_rows (videos_csv (save_videos_csv videos fs)) =
   csv_rows (videos_csv fs) @
   filter (\<lambda>v. video_id v \<notin> video_id ` set (csv_rows (videos_csv fs))) videos"
  by (simp add: save_videos_csv_def Let_def)

lemma save_videos_csv_distinct:
  assumes "distinct (map video_id (csv_rows (videos_csv fs)))"
    and "distinct (map video_id videos)"
  shows "distinct (map video_id (csv_rows (videos_csv (save_videos_csv videos fs))))"
  using assms by (auto simp: save_videos_csv_rows distinct_map_filter) (metis imageI)

lemma save_all_distinct:
  "distinct (map video_id (csv_rows (videos_csv fs))) \<Longrightarrow>
   \<forall>vs\<in>set vss. distinct (map video_id vs) \<Longrightarrow>
   distinct (map video_id (csv_rows (videos_csv (save_all vss fs))))"
  by (induction vss arbitrary: fs) (simp_all add: save_videos_csv_distinct)

subsection \<open>The claims about the reconciler\<close>

text \<open>
  C1. For every measurement of the batch, in batch order: the state before it is the one
  the loop has reached on the measurements in front of it. If the id is in the dictionary
  then, the delta is \<open>max(0, current_views - last_views)\<close> for the views stored there, and
  otherwise the delta is \<open>current_views\<close> in full. The delta is added to the new views of
  the run and to the cumulative total, the entry of the id becomes \<open>(current_views, now)\<close>,
  and no other entry changes; the loop goes on from there with the rest of the batch.
\<close>

theorem measurement_delta_and_upsert:
  assumes "i < length api_callout"
  shows "let before = reconcile now s (take i api_callout);
             after = reconcile now s (take (Suc i) api_callout);
             v = api_callout ! i;
             d = (case map_of (existing before) (stat_video_id v) of
                    Some (lv, lc) \<Rightarrow> max 0 (current_views v - lv)
                  | None \<Rightarrow> current_views v)
         in total_new_views after = total_new_views before + d \<and>
            cumulative_total after = cumulative_total before + d \<and>
            map_of (existing after) (stat_video_id v) = Some (current_views v, now) \<and>
            (\<forall>k. k \<noteq> stat_video_id v \<longrightarrow> map_of (existing after) k = map_of (existing before) k) \<and>
            reconcile now s api_callout = reconcile now after (drop (Suc i) api_callout)"
proof -
  have "reconcile now (reconcile now s (take (Suc i) api_callout)) (drop (Suc i) api_callout) =
      reconcile now s (take (Suc i) api_callout @ drop (Suc i) api_callout)"
    by (simp only: reconcile_append)
  then have "reconcile now s api_callout =
      reconcile now (reconcile now s (take (Suc i) api_callout)) (drop (Suc i) api_callout)"
    by simp
  then show ?thesis
    using assms
    by (simp add: take_Suc_conv_app_nth reconcile_snoc reconcile_step_def delta_def Let_def
        update_conv')
qed

theorem measurement_delta_and_upsert_witness:
  "(1::nat) < length [\<lparr>stat_video_id = ''A'', current_views = 150\<rparr>,
       \<lparr>stat_video_id = ''A'', current_views = 95\<rparr>, \<lparr>stat_video_id = ''B'', current_views = 10\<rparr>] \<and>
   (let before = reconcile ''t1''
          \<lparr>existing = [(''A'', (100, ''t0''))], total_new_views = 0, cumulative_total = 7\<rparr>
          [\<lparr>stat_video_id = ''A'', current_views = 150\<rparr>];
        after = reconcile ''t1''
          \<lparr>existing = [(''A'', (100, ''t0''))], total_new_views = 0, cumulative_total = 7\<rparr>
          [\<lparr>stat_video_id = ''A'', current_views = 150\<rparr>, \<lparr>stat_video_id = ''A'', current_views = 95\<rparr>]
    in total_new_views before = 50 \<and> total_new_views after = 50 \<and>
       cumulative_total before = 57 \<and> cumulative_total after = 57 \<and>
       map_of (existing after) ''A'' = Some (95, ''t1''))"
  using measurement_delta_and_upsert [of 1 "[\<lparr>stat_video_id = ''A'', current_views = 150\<rparr>,
       \<lparr>stat_video_id = ''A'', current_views = 95\<rparr>, \<lparr>stat_video_id = ''B'', current_views = 10\<rparr>]"
       "''t1''" "\<lparr>existing = [(''A'', (100, ''t0''))], total_new_views = 0, cumulative_total = 7\<rparr>"]
  by (simp add: reconcile_step_def delta_def Let_def numeral_2_eq_2)

text \<open>
  C3, as the code has it. A first observation of an id is added in full, unclamped, so the
  statement needs the first observations to be non-negative. For every run in which each
  measurement of an id that is neither in the table read nor earlier in the batch has a
  non-negative count, the total written to \<open>sumtotal.txt\<close> is at least the total loaded
  at the start of the run, also when items report fewer views than recorded; the next run
  loads the value written; and a non-negative loaded total gives a non-negative written
  one (a missing file loads as 0).
\<close>

theorem cumulative_total_monotone:
  assumes "update_allvideoviews now api_callout fs = Inr (fs', rep)"
    and "\<forall>i<length api_callout.
           stat_video_id (api_callout ! i) \<notin> row_video_id ` set (csv_rows (all_views_csv fs)) \<longrightarrow>
           stat_video_id (api_callout ! i) \<notin> stat_video_id ` set (take i api_callout) \<longrightarrow>
           0 \<le> current_views (api_callout ! i)"
  shows "load_cumulative_total (sumtotal_txt fs) \<le> cumulative rep \<and>
         sumtotal_txt fs' = Some (py_str (cumulative rep)) \<and>
         load_cumulative_total (sumtotal_txt fs') = cumulative rep \<and>
         (0 \<le> load_cumulative_total (sumtotal_txt fs) \<longrightarrow> 0 \<le> cumulative rep) \<and>
         load_cumulative_total None = 0"
proof -
  from assms(1) obtain ex where
    ex: "load_existing (all_views_csv fs) = Inr ex" and
    fs': "sumtotal_txt fs' = Some (py_str (cumulative rep))" and
    rep: "cumulative rep = cumulative_total (reconcile now
            \<lparr>existing = ex, total_new_views = 0,
             cumulative_total = load_cumulative_total (sumtotal_txt fs)\<rparr> api_callout)"
    by (auto simp: run_Inr)
  have keys: "fst ` set ex = row_video_id ` set (csv_rows (all_views_csv fs))"
    using load_rows_keys [of "csv_rows (all_views_csv fs)" "[]" ex] ex
    by (simp add: load_existing_def)
  have "load_cumulative_total (sumtotal_txt fs) \<le> cumulative rep"
    using reconcile_mono_first [of api_callout "\<lparr>existing = ex, total_new_views = 0,
             cumulative_total = load_cumulative_total (sumtotal_txt fs)\<rparr>" now] assms(2) rep
    by (simp add: keys)
  with fs' show ?thesis
    by (simp add: load_written_total) (simp add: load_cumulative_total_def)
qed

theorem cumulative_total_monotone_witness:
  "update_allvideoviews ''t1''
     [\<lparr>stat_video_id = ''A'', current_views = 95\<rparr>, \<lparr>stat_video_id = ''B'', current_views = 10\<rparr>]
     \<lparr>videos_csv = Absent,
      all_views_csv = Table [\<lparr>row_video_id = ''A'', last_views = ''100'', last_checked = ''t0''\<rparr>],
      sumtotal_txt = Some ''100''\<rparr> =
   Inr (\<lparr>videos_csv = Absent,
         all_views_csv = Table [\<lparr>row_video_id = ''A'', last_views = ''95'', last_checked = ''t1''\<rparr>,
           \<lparr>row_video_id = ''B'', last_views = ''10'', last_checked = ''t1''\<rparr>],
         sumtotal_txt = Some ''110''\<rparr>,
        \<lparr>new_views = 10, cumulative = 110\<rparr>) \<and>
   0 \<le> current_views \<lparr>stat_video_id = ''B'', current_views = 10\<rparr> \<and>
   load_cumulative_total (Some ''100'') \<le> 110"
proof -
  let ?batch = "[\<lparr>stat_video_id = ''A'', current_views = 95\<rparr>, \<lparr>stat_video_id = ''B'', current_views = 10\<rparr>]"
  let ?fs = "\<lparr>videos_csv = Absent,
      all_views_csv = Table [\<lparr>row_video_id = ''A'', last_views = ''100'', last_checked = ''t0''\<rparr>],
      sumtotal_txt = Some ''100''\<rparr>"
  have run: "update_allvideoviews ''t1'' ?batch ?fs =
   Inr (\<lparr>videos_csv = Absent,
         all_views_csv = Table [\<lparr>row_video_id = ''A'', last_views = ''95'', last_checked = ''t1''\<rparr>,
           \<lparr>row_video_id = ''B'', last_views = ''10'', last_checked = ''t1''\<rparr>],
         sumtotal_txt = Some ''110''\<rparr>,
        \<lparr>new_views = 10, cumulative = 110\<rparr>)"
    by (simp add: run_eval)
  have first: "\<forall>i<length ?batch.
      stat_video_id (?batch ! i) \<notin> row_video_id ` set (csv_rows (all_views_csv ?fs)) \<longrightarrow>
      stat_video_id (?batch ! i) \<notin> stat_video_id ` set (take i ?batch) \<longrightarrow>
      0 \<le> current_views (?batch ! i)"
    by (simp add: less_Suc_eq numeral_2_eq_2)
  from cumulative_total_monotone [OF run first, THEN conjunct1]
  have "load_cumulative_total (Some ''100'') \<le> 110"
    by simp
  with run show ?thesis
    by simp
qed

text \<open>
  C3 as stated ("for every run") does not hold. A first observation of \<open>-5\<close> views lowers a
  loaded total of 10 to a written total of 5, and with no file at the start the total
  written is \<open>-5\<close>.
\<close>

theorem cumulative_total_monotone_counterexample:
  "update_allvideoviews ''t1'' [\<lparr>stat_video_id = ''A'', current_views = - 5\<rparr>]
     \<lparr>videos_csv = Absent, all_views_csv = Absent, sumtotal_txt = Some ''10''\<rparr> =
   Inr (\<lparr>videos_csv = Absent,
         all_views_csv = Table [\<lparr>row_video_id = ''A'', last_views = ''-5'', last_checked = ''t1''\<rparr>],
         sumtotal_txt = Some ''5''\<rparr>,
        \<lparr>new_views = - 5, cumulative = 5\<rparr>) \<and>
   load_cumulative_total (Some ''10'') = 10 \<and>
   load_cumulative_total (Some ''5'') = 5 \<and>
   \<not> load_cumulative_total (Some ''10'') \<le> load_cumulative_total (Some ''5'') \<and>
   update_allvideoviews ''t1'' [\<lparr>stat_video_id = ''A'', current_views = - 5\<rparr>]
     \<lparr>videos_csv = Absent, all_views_csv = Absent, sumtotal_txt = None\<rparr> =
   Inr (\<lparr>videos_csv = Absent,
         all_views_csv = Table [\<lparr>row_video_id = ''A'', last_views = ''-5'', last_checked = ''t1''\<rparr>],
         sumtotal_txt = Some ''-5''\<rparr>,
        \<lparr>new_views = - 5, cumulative = - 5\<rparr>) \<and>
   \<not> 0 \<le> load_cumulative_total (Some ''-5'')"
  by (simp add: run_eval)

text \<open>
  C7. When \<open>sumtotal.txt\<close> is missing, or its content does not read as an integer, the
  cumulative total is loaded as 0 and no exception is raised: the run goes on (it returns
  whenever the view table could be loaded, which happens before) and behaves as if the file
  held \<open>0\<close>.
\<close>

theorem unreadable_total_is_zero:
  assumes "sumtotal_txt fs = None \<or> (\<exists>s. sumtotal_txt fs = Some s \<and> py_int (py_strip s) = None)"
  shows "load_cumulative_total (sumtotal_txt fs) = 0 \<and>
         (\<forall>ex. load_existing (all_views_csv fs) = Inr ex \<longrightarrow>
            (\<exists>fs' rep. update_allvideoviews now api_callout fs = Inr (fs', rep) \<and>
               cumulative rep = new_views rep \<and>
               sumtotal_txt fs' = Some (py_str (new_views rep)))) \<and>
         update_allvideoviews now api_callout fs =
           update_allvideoviews now api_callout (fs\<lparr>sumtotal_txt := Some ''0''\<rparr>)"
proof -
  have z: "load_cumulative_total (sumtotal_txt fs) = 0"
    using assms by (auto simp: load_cumulative_total_def)
  have z': "load_cumulative_total (Some ''0'') = 0"
    by (simp add: load_cumulative_total_def py_int_def int_strip_def int_space_def py_strip_def is_space_def digits_def
        is_digit_def digit_val_def)
  have "cumulative_total (reconcile now \<lparr>existing = ex, total_new_views = 0,
            cumulative_total = 0\<rparr> api_callout) =
        total_new_views (reconcile now \<lparr>existing = ex, total_new_views = 0,
            cumulative_total = 0\<rparr> api_callout)" for ex
    using reconcile_totals_together [of now "\<lparr>existing = ex, total_new_views = 0,
            cumulative_total = 0\<rparr>" api_callout] by simp
  then show ?thesis
    using z z' by (auto simp: update_allvideoviews_def Let_def split: sum.splits)
qed

theorem unreadable_total_is_zero_witness:
  "(sumtotal_txt \<lparr>videos_csv = Absent, all_views_csv = Absent, sumtotal_txt = Some ''n/a''\<rparr> = None \<or>
    (\<exists>s. sumtotal_txt \<lparr>videos_csv = Absent, all_views_csv = Absent, sumtotal_txt = Some ''n/a''\<rparr> = Some s \<and>
         py_int (py_strip s) = None)) \<and>
   load_cumulative_total (Some ''n/a'') = 0 \<and>
   update_allvideoviews ''t1'' [\<lparr>stat_video_id = ''A'', current_views = 100\<rparr>]
     \<lparr>videos_csv = Absent, all_views_csv = Absent, sumtotal_txt = Some ''n/a''\<rparr> =
   Inr (\<lparr>videos_csv = Absent,
         all_views_csv = Table [\<lparr>row_video_id = ''A'', last_views = ''100'', last_checked = ''t1''\<rparr>],
         sumtotal_txt = Some ''100''\<rparr>,
        \<lparr>new_views = 100, cumulative = 100\<rparr>)"
proof -
  have bad: "py_int (py_strip ''n/a'') = None"
    by (simp add: py_int_def int_strip_def int_space_def py_strip_def is_space_def digits_def is_digit_def)
  then have hyp: "sumtotal_txt \<lparr>videos_csv = Absent, all_views_csv = Absent, sumtotal_txt = Some ''n/a''\<rparr> = None \<or>
    (\<exists>s. sumtotal_txt \<lparr>videos_csv = Absent, all_views_csv = Absent, sumtotal_txt = Some ''n/a''\<rparr> = Some s \<and>
         py_int (py_strip s) = None)"
    by simp
  have zero: "update_allvideoviews ''t1'' [\<lparr>stat_video_id = ''A'', current_views = 100\<rparr>]
     \<lparr>videos_csv = Absent, all_views_csv = Absent, sumtotal_txt = Some ''0''\<rparr> =
   Inr (\<lparr>videos_csv = Absent,
         all_views_csv = Table [\<lparr>row_video_id = ''A'', last_views = ''100'', last_checked = ''t1''\<rparr>],
         sumtotal_txt = Some ''100''\<rparr>,
        \<lparr>new_views = 100, cumulative = 100\<rparr>)"
    by (simp add: update_allvideoviews_def load_existing_def load_cumulative_total_def
        reconcile_step_def delta_def write_row_def Let_def
        py_int_def int_strip_def int_space_def py_strip_def is_space_def digits_def is_digit_def digit_val_def
        py_str_def str_nat.simps digit_char_def)
  from unreadable_total_is_zero [OF hyp, of "''t1''" "[\<lparr>stat_video_id = ''A'', current_views = 100\<rparr>]"]
  have "load_cumulative_total (Some ''n/a'') = 0"
    and "update_allvideoviews ''t1'' [\<lparr>stat_video_id = ''A'', current_views = 100\<rparr>]
       \<lparr>videos_csv = Absent, all_views_csv = Absent, sumtotal_txt = Some ''n/a''\<rparr> =
     update_allvideoviews ''t1'' [\<lparr>stat_video_id = ''A'', current_views = 100\<rparr>]
       \<lparr>videos_csv = Absent, all_views_csv = Absent, sumtotal_txt = Some ''0''\<rparr>"
    by simp_all
  with hyp zero show ?thesis
    by simp
qed

text \<open>
  C9. When an id occurs again in a batch, with no occurrence in between, the delta of the
  later occurrence is taken against the views stored by the earlier one, whatever was
  recorded before the run: it is \<open>max(0, later - earlier)\<close>. With an unchanged count the
  later occurrence adds nothing to either total. After the batch the stored views of the id
  are those of its last occurrence.
\<close>

theorem repeated_id_in_batch:
  assumes "stat_video_id v1 = stat_video_id v2"
    and "stat_video_id v2 \<notin> stat_video_id ` set mid"
  shows "total_new_views (reconcile now s (pre @ v1 # mid @ [v2])) =
           total_new_views (reconcile now s (pre @ v1 # mid)) + max 0 (current_views v2 - current_views v1) \<and>
         cumulative_total (reconcile now s (pre @ v1 # mid @ [v2])) =
           cumulative_total (reconcile now s (pre @ v1 # mid)) + max 0 (current_views v2 - current_views v1) \<and>
         (current_views v2 = current_views v1 \<longrightarrow>
            total_new_views (reconcile now s (pre @ v1 # mid @ [v2])) =
              total_new_views (reconcile now s (pre @ v1 # mid)) \<and>
            cumulative_total (reconcile now s (pre @ v1 # mid @ [v2])) =
              cumulative_total (reconcile now s (pre @ v1 # mid))) \<and>
         (stat_video_id v2 \<notin> stat_video_id ` set post \<longrightarrow>
            map_of (existing (reconcile now s (pre @ v1 # mid @ v2 # post))) (stat_video_id v2) =
              Some (current_views v2, now))"
proof -
  let ?a = "reconcile now s (pre @ [v1])"
  let ?b = "reconcile now s (pre @ v1 # mid)"
  have b: "?b = reconcile now ?a mid"
    by (simp add: reconcile_append)
  have "map_of (existing ?a) (stat_video_id v2) = Some (current_views v1, now)"
    using assms(1) by (simp add: reconcile_snoc reconcile_step_def Let_def update_conv')
  then have stored: "map_of (existing ?b) (stat_video_id v2) = Some (current_views v1, now)"
    using assms(2) by (simp add: b reconcile_untouched)
  have c: "reconcile now s (pre @ v1 # mid @ [v2]) = reconcile_step now ?b v2"
    using reconcile_snoc [of now s "pre @ v1 # mid" v2] by simp
  have d: "delta (existing ?b) v2 = max 0 (current_views v2 - current_views v1)"
    using stored by (simp add: delta_def)
  have e: "reconcile now s (pre @ v1 # mid @ v2 # post) = reconcile now (reconcile_step now ?b v2) post"
    using reconcile_append [of now s "pre @ v1 # mid @ [v2]" post] c by simp
  have "map_of (existing (reconcile_step now ?b v2)) (stat_video_id v2) = Some (current_views v2, now)"
    by (simp add: reconcile_step_def Let_def update_conv')
  then have f: "stat_video_id v2 \<notin> stat_video_id ` set post \<Longrightarrow>
      map_of (existing (reconcile now s (pre @ v1 # mid @ v2 # post))) (stat_video_id v2) =
        Some (current_views v2, now)"
    by (simp add: e reconcile_untouched)
  show ?thesis
    using d f by (simp add: c reconcile_step_def Let_def)
qed

theorem repeated_id_in_batch_witness:
  "stat_video_id \<lparr>stat_video_id = ''A'', current_views = 100\<rparr> =
     stat_video_id \<lparr>stat_video_id = ''A'', current_views = 100\<rparr> \<and>
   stat_video_id \<lparr>stat_video_id = ''A'', current_views = 100\<rparr> \<notin>
     stat_video_id ` set [\<lparr>stat_video_id = ''B'', current_views = 10\<rparr>] \<and>
   total_new_views (reconcile ''t1'' \<lparr>existing = [], total_new_views = 0, cumulative_total = 0\<rparr>
     [\<lparr>stat_video_id = ''A'', current_views = 100\<rparr>, \<lparr>stat_video_id = ''B'', current_views = 10\<rparr>,
      \<lparr>stat_video_id = ''A'', current_views = 100\<rparr>]) = 110 \<and>
   map_of (existing (reconcile ''t1'' \<lparr>existing = [], total_new_views = 0, cumulative_total = 0\<rparr>
     [\<lparr>stat_video_id = ''A'', current_views = 100\<rparr>, \<lparr>stat_video_id = ''B'', current_views = 10\<rparr>,
      \<lparr>stat_video_id = ''A'', current_views = 100\<rparr>])) ''A'' = Some (100, ''t1'')"
proof -
  have same: "stat_video_id \<lparr>stat_video_id = ''A'', current_views = 100\<rparr> =
     stat_video_id \<lparr>stat_video_id = ''A'', current_views = 100\<rparr>"
    by simp
  have apart: "stat_video_id \<lparr>stat_video_id = ''A'', current_views = 100\<rparr> \<notin>
     stat_video_id ` set [\<lparr>stat_video_id = ''B'', current_views = 10\<rparr>]"
    by simp
  have first: "total_new_views (reconcile ''t1'' \<lparr>existing = [], total_new_views = 0, cumulative_total = 0\<rparr>
     [\<lparr>stat_video_id = ''A'', current_views = 100\<rparr>, \<lparr>stat_video_id = ''B'', current_views = 10\<rparr>]) = 110"
    by (simp add: reconcile_step_def delta_def Let_def)
  from repeated_id_in_batch [OF same apart, of "''t1''"
      "\<lparr>existing = [], total_new_views = 0, cumulative_total = 0\<rparr>" "[]" "[]"] first
  have "total_new_views (reconcile ''t1'' \<lparr>existing = [], total_new_views = 0, cumulative_total = 0\<rparr>
     [\<lparr>stat_video_id = ''A'', current_views = 100\<rparr>, \<lparr>stat_video_id = ''B'', current_views = 10\<rparr>,
      \<lparr>stat_video_id = ''A'', current_views = 100\<rparr>]) = 110"
    and "map_of (existing (reconcile ''t1'' \<lparr>existing = [], total_new_views = 0, cumulative_total = 0\<rparr>
     [\<lparr>stat_video_id = ''A'', current_views = 100\<rparr>, \<lparr>stat_video_id = ''B'', current_views = 10\<rparr>,
      \<lparr>stat_video_id = ''A'', current_views = 100\<rparr>])) ''A'' = Some (100, ''t1'')"
    by simp_all
  with same apart show ?thesis
    by simp
qed

text \<open>
  C2. Starting with no view table and no total file, any sequence of runs succeeds, and the
  cumulative total persisted after the last run is the sum, over all runs and all
  measurements processed, of \<open>max(0, current - previously recorded)\<close>, the first
  observation of an id counting in full: it is what the next run would load, and after at
  least one run it is the decimal text in \<open>sumtotal.txt\<close>.
\<close>

theorem cumulative_total_is_sum_of_deltas:
  assumes "all_views_csv fs = Absent" and "sumtotal_txt fs = None"
  shows "\<exists>fs'. reconciler_runs rs fs = Inr fs' \<and>
           load_cumulative_total (sumtotal_txt fs') = spec_total Map.empty (concat (map snd rs)) \<and>
           (rs \<noteq> [] \<longrightarrow>
              sumtotal_txt fs' = Some (py_str (spec_total Map.empty (concat (map snd rs)))))"
proof -
  have load: "load_existing (all_views_csv fs) = Inr []"
    by (simp add: assms(1) load_existing_def)
  have e: "recorded_views [] = Map.empty"
    by (simp add: recorded_views_def fun_eq_iff)
  from runs_total [OF load, of rs] obtain fs' where
    runs: "reconciler_runs rs fs = Inr fs'" and
    total: "load_cumulative_total (sumtotal_txt fs') = spec_total Map.empty (concat (map snd rs))" and
    written: "rs \<noteq> [] \<longrightarrow> (\<exists>n. sumtotal_txt fs' = Some (py_str n))"
    by (auto simp: e assms(2) load_cumulative_total_def)
  have "sumtotal_txt fs' = Some (py_str (spec_total Map.empty (concat (map snd rs))))" if "rs \<noteq> []"
  proof -
    from that written obtain n where n: "sumtotal_txt fs' = Some (py_str n)"
      by blast
    with total have "n = spec_total Map.empty (concat (map snd rs))"
      by (simp add: load_written_total)
    with n show ?thesis by simp
  qed
  with runs total show ?thesis
    by blast
qed

theorem cumulative_total_is_sum_of_deltas_witness:
  "all_views_csv no_files = Absent \<and> sumtotal_txt no_files = None \<and>
   [(''t1'', [\<lparr>stat_video_id = ''A'', current_views = 100\<rparr>]),
    (''t2'', [\<lparr>stat_video_id = ''A'', current_views = 95\<rparr>, \<lparr>stat_video_id = ''B'', current_views = 10\<rparr>]),
    (''t3'', [\<lparr>stat_video_id = ''A'', current_views = 150\<rparr>])] \<noteq> [] \<and>
   (\<exists>fs'. reconciler_runs
       [(''t1'', [\<lparr>stat_video_id = ''A'', current_views = 100\<rparr>]),
        (''t2'', [\<lparr>stat_video_id = ''A'', current_views = 95\<rparr>, \<lparr>stat_video_id = ''B'', current_views = 10\<rparr>]),
        (''t3'', [\<lparr>stat_video_id = ''A'', current_views = 150\<rparr>])] no_files = Inr fs' \<and>
      load_cumulative_total (sumtotal_txt fs') = 165 \<and>
      sumtotal_txt fs' = Some ''165'')"
proof -
  let ?rs = "[(''t1'', [\<lparr>stat_video_id = ''A'', current_views = 100\<rparr>]),
    (''t2'', [\<lparr>stat_video_id = ''A'', current_views = 95\<rparr>, \<lparr>stat_video_id = ''B'', current_views = 10\<rparr>]),
    (''t3'', [\<lparr>stat_video_id = ''A'', current_views = 150\<rparr>])]"
  have a: "all_views_csv no_files = Absent" and b: "sumtotal_txt no_files = None"
    by (simp_all add: no_files_def)
  have sum: "spec_total Map.empty (concat (map snd ?rs)) = 165"
    by simp
  have str: "py_str 165 = ''165''"
    by (simp add: py_str_def str_nat.simps digit_char_def)
  from cumulative_total_is_sum_of_deltas [OF a b, of ?rs] a b show ?thesis
    unfolding sum str by simp
qed

text \<open>
  C4. A row of the view table whose id is absent from the fetch batch is carried over by a
  run. Let \<open>r\<close> be the row the load keeps for its id, that is, no later row of the table
  has the same id (every row, when the table has one row per id, as every table written by
  a run has). Then the rewritten table has exactly one row with that id, with the last
  views (as an integer, written back in decimal) and the time stamp of \<open>r\<close>; it is \<open>r\<close>
  itself when the views of \<open>r\<close> were in the form the program writes.
\<close>

theorem stale_row_carried_over:
  assumes "update_allvideoviews now api_callout fs = Inr (fs', rep)"
    and "csv_rows (all_views_csv fs) = rs1 @ r # rs2"
    and "row_video_id r \<notin> row_video_id ` set rs2"
    and "row_video_id r \<notin> stat_video_id ` set api_callout"
  shows "\<exists>n. py_int (last_views r) = Some n \<and>
           filter (\<lambda>r'. row_video_id r' = row_video_id r) (csv_rows (all_views_csv fs')) =
             [\<lparr>row_video_id = row_video_id r, last_views = py_str n, last_checked = last_checked r\<rparr>] \<and>
           (last_views r = py_str n \<longrightarrow>
              filter (\<lambda>r'. row_video_id r' = row_video_id r) (csv_rows (all_views_csv fs')) = [r])"
proof -
  from assms(1) obtain ex s where ex: "load_existing (all_views_csv fs) = Inr ex"
    and s: "s = reconcile now \<lparr>existing = ex, total_new_views = 0,
               cumulative_total = load_cumulative_total (sumtotal_txt fs)\<rparr> api_callout"
    and tab: "all_views_csv fs' = Table (map write_row (existing s))"
    and d: "distinct (map fst (existing s))"
    by (rule run_Inr_written)
  from ex assms(2) have "load_rows (rs1 @ r # rs2) [] = Inr ex"
    by (simp add: load_existing_def)
  from load_rows_last_wins [OF this assms(3)] obtain n where
    n: "py_int (last_views r) = Some n" and
    m: "map_of ex (row_video_id r) = Some (n, last_checked r)"
    by blast
  from m assms(4) have "map_of (existing s) (row_video_id r) = Some (n, last_checked r)"
    by (simp add: s reconcile_untouched)
  from map_of_filter_row [OF d this] tab
  have f: "filter (\<lambda>r'. row_video_id r' = row_video_id r) (csv_rows (all_views_csv fs')) =
      [\<lparr>row_video_id = row_video_id r, last_views = py_str n, last_checked = last_checked r\<rparr>]"
    by (simp add: write_row_def)
  with n show ?thesis
    by auto
qed

theorem stale_row_carried_over_witness:
  "update_allvideoviews ''t3'' [\<lparr>stat_video_id = ''B'', current_views = 5\<rparr>]
     \<lparr>videos_csv = Absent,
      all_views_csv = Table [\<lparr>row_video_id = ''A'', last_views = ''1'', last_checked = ''t0''\<rparr>,
        \<lparr>row_video_id = ''A'', last_views = ''2'', last_checked = ''t1''\<rparr>,
        \<lparr>row_video_id = ''C'', last_views = ''7'', last_checked = ''t2''\<rparr>],
      sumtotal_txt = Some ''9''\<rparr> =
   Inr (\<lparr>videos_csv = Absent,
         all_views_csv = Table [\<lparr>row_video_id = ''A'', last_views = ''2'', last_checked = ''t1''\<rparr>,
           \<lparr>row_video_id = ''C'', last_views = ''7'', last_checked = ''t2''\<rparr>,
           \<lparr>row_video_id = ''B'', last_views = ''5'', last_checked = ''t3''\<rparr>],
         sumtotal_txt = Some ''14''\<rparr>,
        \<lparr>new_views = 5, cumulative = 14\<rparr>) \<and>
   ''A'' \<notin> row_video_id ` set [\<lparr>row_video_id = ''C'', last_views = ''7'', last_checked = ''t2''\<rparr>] \<and>
   ''A'' \<notin> stat_video_id ` set [\<lparr>stat_video_id = ''B'', current_views = 5\<rparr>] \<and>
   (\<exists>n. py_int ''2'' = Some n \<and>
      filter (\<lambda>r'. row_video_id r' = ''A'')
        [\<lparr>row_video_id = ''A'', last_views = ''2'', last_checked = ''t1''\<rparr>,
         \<lparr>row_video_id = ''C'', last_views = ''7'', last_checked = ''t2''\<rparr>,
         \<lparr>row_video_id = ''B'', last_views = ''5'', last_checked = ''t3''\<rparr>] =
      [\<lparr>row_video_id = ''A'', last_views = py_str n, last_checked = ''t1''\<rparr>])"
proof -
  let ?r = "\<lparr>row_video_id = ''A'', last_views = ''2'', last_checked = ''t1''\<rparr>"
  let ?fs = "\<lparr>videos_csv = Absent,
      all_views_csv = Table [\<lparr>row_video_id = ''A'', last_views = ''1'', last_checked = ''t0''\<rparr>,
        ?r, \<lparr>row_video_id = ''C'', last_views = ''7'', last_checked = ''t2''\<rparr>],
      sumtotal_txt = Some ''9''\<rparr>"
  have run: "update_allvideoviews ''t3'' [\<lparr>stat_video_id = ''B'', current_views = 5\<rparr>] ?fs =
   Inr (\<lparr>videos_csv = Absent,
         all_views_csv = Table [\<lparr>row_video_id = ''A'', last_views = ''2'', last_checked = ''t1''\<rparr>,
           \<lparr>row_video_id = ''C'', last_views = ''7'', last_checked = ''t2''\<rparr>,
           \<lparr>row_video_id = ''B'', last_views = ''5'', last_checked = ''t3''\<rparr>],
         sumtotal_txt = Some ''14''\<rparr>,
        \<lparr>new_views = 5, cumulative = 14\<rparr>)"
    by (simp add: run_eval)
  have rows: "csv_rows (all_views_csv ?fs) =
      [\<lparr>row_video_id = ''A'', last_views = ''1'', last_checked = ''t0''\<rparr>] @ ?r #
      [\<lparr>row_video_id = ''C'', last_views = ''7'', last_checked = ''t2''\<rparr>]"
    by simp
  have last: "row_video_id ?r \<notin>
      row_video_id ` set [\<lparr>row_video_id = ''C'', last_views = ''7'', last_checked = ''t2''\<rparr>]"
    by simp
  have absent: "row_video_id ?r \<notin> stat_video_id ` set [\<lparr>stat_video_id = ''B'', current_views = 5\<rparr>]"
    by simp
  from stale_row_carried_over [OF run rows last absent] run last absent
  show ?thesis
    by simp
qed

text \<open>
  C5. After a run, a second run whose batch gives every id the views the first run stored
  for it succeeds, reports 0 new views, reports the cumulative total of the first run and
  leaves the content of \<open>sumtotal.txt\<close> as it was.
\<close>

theorem second_run_adds_nothing:
  assumes "update_allvideoviews now1 batch1 fs = Inr (fs1, rep1)"
    and "\<forall>v\<in>set batch2. \<exists>r\<in>set (csv_rows (all_views_csv fs1)).
           row_video_id r = stat_video_id v \<and> py_int (last_views r) = Some (current_views v)"
  shows "\<exists>fs2. update_allvideoviews now2 batch2 fs1 =
             Inr (fs2, \<lparr>new_views = 0, cumulative = cumulative rep1\<rparr>) \<and>
           sumtotal_txt fs2 = sumtotal_txt fs1"
proof -
  from assms(1) obtain ex s where "load_existing (all_views_csv fs) = Inr ex"
    and "s = reconcile now1 \<lparr>existing = ex, total_new_views = 0,
               cumulative_total = load_cumulative_total (sumtotal_txt fs)\<rparr> batch1"
    and tab: "all_views_csv fs1 = Table (map write_row (existing s))"
    and tot: "sumtotal_txt fs1 = Some (py_str (cumulative_total s))"
    and rep: "rep1 = \<lparr>new_views = total_new_views s, cumulative = cumulative_total s\<rparr>"
    and d: "distinct (map fst (existing s))"
    and load: "load_existing (all_views_csv fs1) = Inr (existing s)"
    by (rule run_Inr_written)
  let ?s0 = "\<lparr>existing = existing s, total_new_views = 0,
             cumulative_total = load_cumulative_total (sumtotal_txt fs1)\<rparr>"
  have "\<forall>v\<in>set batch2. \<exists>t. map_of (existing ?s0) (stat_video_id v) = Some (current_views v, t)"
  proof
    fix v assume "v \<in> set batch2"
    with assms(2) tab obtain e where e: "e \<in> set (existing s)"
      and "row_video_id (write_row e) = stat_video_id v"
      and "py_int (last_views (write_row e)) = Some (current_views v)"
      by auto
    then have "fst e = stat_video_id v" and "fst (snd e) = current_views v"
      by (simp_all add: write_row_fields py_int_py_str)
    then have "e = (stat_video_id v, (current_views v, snd (snd e)))"
      by (simp add: prod_eq_iff)
    with e d have "map_of (existing s) (stat_video_id v) = Some (current_views v, snd (snd e))"
      by (metis map_of_is_SomeI)
    then show "\<exists>t. map_of (existing ?s0) (stat_video_id v) = Some (current_views v, t)"
      by simp
  qed
  from reconcile_unchanged [OF this, of now2]
  have "total_new_views (reconcile now2 ?s0 batch2) = 0"
    and "cumulative_total (reconcile now2 ?s0 batch2) = cumulative_total s"
    by (simp_all add: tot load_written_total)
  then show ?thesis
    using load tot rep by (simp add: update_allvideoviews_def Let_def)
qed

theorem second_run_adds_nothing_witness:
  "update_allvideoviews ''t1''
     [\<lparr>stat_video_id = ''A'', current_views = 100\<rparr>, \<lparr>stat_video_id = ''B'', current_views = 10\<rparr>]
     no_files =
   Inr (\<lparr>videos_csv = Absent,
         all_views_csv = Table [\<lparr>row_video_id = ''A'', last_views = ''100'', last_checked = ''t1''\<rparr>,
           \<lparr>row_video_id = ''B'', last_views = ''10'', last_checked = ''t1''\<rparr>],
         sumtotal_txt = Some ''110''\<rparr>,
        \<lparr>new_views = 110, cumulative = 110\<rparr>) \<and>
   py_int (last_views \<lparr>row_video_id = ''A'', last_views = ''100'', last_checked = ''t1''\<rparr>) =
     Some (current_views \<lparr>stat_video_id = ''A'', current_views = 100\<rparr>) \<and>
   py_int (last_views \<lparr>row_video_id = ''B'', last_views = ''10'', last_checked = ''t1''\<rparr>) =
     Some (current_views \<lparr>stat_video_id = ''B'', current_views = 10\<rparr>) \<and>
   (\<exists>fs2. update_allvideoviews ''t2''
       [\<lparr>stat_video_id = ''A'', current_views = 100\<rparr>, \<lparr>stat_video_id = ''B'', current_views = 10\<rparr>]
       \<lparr>videos_csv = Absent,
         all_views_csv = Table [\<lparr>row_video_id = ''A'', last_views = ''100'', last_checked = ''t1''\<rparr>,
           \<lparr>row_video_id = ''B'', last_views = ''10'', last_checked = ''t1''\<rparr>],
         sumtotal_txt = Some ''110''\<rparr> =
       Inr (fs2, \<lparr>new_views = 0, cumulative = 110\<rparr>) \<and>
     sumtotal_txt fs2 = Some ''110'')"
proof -
  let ?batch = "[\<lparr>stat_video_id = ''A'', current_views = 100\<rparr>, \<lparr>stat_video_id = ''B'', current_views = 10\<rparr>]"
  let ?fs1 = "\<lparr>videos_csv = Absent,
         all_views_csv = Table [\<lparr>row_video_id = ''A'', last_views = ''100'', last_checked = ''t1''\<rparr>,
           \<lparr>row_video_id = ''B'', last_views = ''10'', last_checked = ''t1''\<rparr>],
         sumtotal_txt = Some ''110''\<rparr>"
  have run: "update_allvideoviews ''t1'' ?batch no_files = Inr (?fs1, \<lparr>new_views = 110, cumulative = 110\<rparr>)"
    by (simp add: no_files_def run_eval)
  have same: "\<forall>v\<in>set ?batch. \<exists>r\<in>set (csv_rows (all_views_csv ?fs1)).
      row_video_id r = stat_video_id v \<and> py_int (last_views r) = Some (current_views v)"
    by (simp add: py_int_def int_strip_def int_space_def py_strip_def is_space_def digits_def is_digit_def digit_val_def)
  from second_run_adds_nothing [OF run same, of "''t2''"] run same
  show ?thesis
    by simp
qed

text \<open>
  C10. After a run the rewritten table has exactly one row per id: its ids are distinct,
  and they are the ids of the table read together with the ids of the batch. This holds
  also when the table read had several rows for an id; then the last of them is the one
  whose values are written (for an id absent from the batch).
\<close>

theorem one_row_per_video:
  assumes "update_allvideoviews now api_callout fs = Inr (fs', rep)"
  shows "\<exists>rows'. all_views_csv fs' = Table rows' \<and>
           distinct (map row_video_id rows') \<and>
           set (map row_video_id rows') =
             row_video_id ` set (csv_rows (all_views_csv fs)) \<union> stat_video_id ` set api_callout \<and>
           (\<forall>rs1 r rs2. csv_rows (all_views_csv fs) = rs1 @ r # rs2 \<longrightarrow>
              row_video_id r \<notin> row_video_id ` set rs2 \<longrightarrow>
              row_video_id r \<notin> stat_video_id ` set api_callout \<longrightarrow>
              (\<exists>r'\<in>set rows'. row_video_id r' = row_video_id r \<and>
                 py_int (last_views r') = py_int (last_views r) \<and>
                 last_checked r' = last_checked r))"
proof -
  from assms obtain ex s where ex: "load_existing (all_views_csv fs) = Inr ex"
    and s: "s = reconcile now \<lparr>existing = ex, total_new_views = 0,
               cumulative_total = load_cumulative_total (sumtotal_txt fs)\<rparr> api_callout"
    and tab: "all_views_csv fs' = Table (map write_row (existing s))"
    and d: "distinct (map fst (existing s))"
    by (rule run_Inr_written)
  have ids: "map row_video_id (map write_row (existing s)) = map fst (existing s)"
    by (simp add: write_row_fields comp_def)
  have keys: "fst ` set ex = row_video_id ` set (csv_rows (all_views_csv fs))"
    using load_rows_keys [of "csv_rows (all_views_csv fs)" "[]" ex] ex
    by (simp add: load_existing_def)
  have k: "set (map fst (existing s)) =
      row_video_id ` set (csv_rows (all_views_csv fs)) \<union> stat_video_id ` set api_callout"
    using reconcile_keys [of now "\<lparr>existing = ex, total_new_views = 0,
               cumulative_total = load_cumulative_total (sumtotal_txt fs)\<rparr>" api_callout] keys
    by (simp add: s)
  have w: "\<exists>r'\<in>set (map write_row (existing s)). row_video_id r' = row_video_id r \<and>
        py_int (last_views r') = py_int (last_views r) \<and> last_checked r' = last_checked r"
    if rows: "csv_rows (all_views_csv fs) = rs1 @ r # rs2"
      and last: "row_video_id r \<notin> row_video_id ` set rs2"
      and absent: "row_video_id r \<notin> stat_video_id ` set api_callout" for rs1 r rs2
  proof -
    from ex rows have "load_rows (rs1 @ r # rs2) [] = Inr ex"
      by (simp add: load_existing_def)
    from load_rows_last_wins [OF this last] obtain n where
      n: "py_int (last_views r) = Some n" and
      m: "map_of ex (row_video_id r) = Some (n, last_checked r)"
      by blast
    from m absent have "map_of (existing s) (row_video_id r) = Some (n, last_checked r)"
      by (simp add: s reconcile_untouched)
    then have "(row_video_id r, (n, last_checked r)) \<in> set (existing s)"
      by (rule map_of_SomeD)
    then have "write_row (row_video_id r, (n, last_checked r)) \<in> set (map write_row (existing s))"
      by simp
    then show ?thesis
      using n
      by (intro bexI [of _ "write_row (row_video_id r, (n, last_checked r))"])
        (simp_all add: write_row_fields py_int_py_str)
  qed
  have "distinct (map row_video_id (map write_row (existing s)))"
    using d by (simp only: ids)
  moreover have "set (map row_video_id (map write_row (existing s))) =
      row_video_id ` set (csv_rows (all_views_csv fs)) \<union> stat_video_id ` set api_callout"
    using k by (simp only: ids)
  ultimately show ?thesis
    using tab w by blast
qed

theorem one_row_per_video_witness:
  "update_allvideoviews ''t3'' [\<lparr>stat_video_id = ''B'', current_views = 5\<rparr>]
     \<lparr>videos_csv = Absent,
      all_views_csv = Table [\<lparr>row_video_id = ''A'', last_views = ''1'', last_checked = ''t0''\<rparr>,
        \<lparr>row_video_id = ''A'', last_views = ''2'', last_checked = ''t1''\<rparr>],
      sumtotal_txt = Some ''2''\<rparr> =
   Inr (\<lparr>videos_csv = Absent,
         all_views_csv = Table [\<lparr>row_video_id = ''A'', last_views = ''2'', last_checked = ''t1''\<rparr>,
           \<lparr>row_video_id = ''B'', last_views = ''5'', last_checked = ''t3''\<rparr>],
         sumtotal_txt = Some ''7''\<rparr>,
        \<lparr>new_views = 5, cumulative = 7\<rparr>) \<and>
   (\<exists>rows'. Table [\<lparr>row_video_id = ''A'', last_views = ''2'', last_checked = ''t1''\<rparr>,
           \<lparr>row_video_id = ''B'', last_views = ''5'', last_checked = ''t3''\<rparr>] = Table rows' \<and>
      distinct (map row_video_id rows') \<and>
      set (map row_video_id rows') = {''A'', ''B''})"
proof -
  let ?fs = "\<lparr>videos_csv = Absent,
      all_views_csv = Table [\<lparr>row_video_id = ''A'', last_views = ''1'', last_checked = ''t0''\<rparr>,
        \<lparr>row_video_id = ''A'', last_views = ''2'', last_checked = ''t1''\<rparr>],
      sumtotal_txt = Some ''2''\<rparr>"
  have run: "update_allvideoviews ''t3'' [\<lparr>stat_video_id = ''B'', current_views = 5\<rparr>] ?fs =
   Inr (\<lparr>videos_csv = Absent,
         all_views_csv = Table [\<lparr>row_video_id = ''A'', last_views = ''2'', last_checked = ''t1''\<rparr>,
           \<lparr>row_video_id = ''B'', last_views = ''5'', last_checked = ''t3''\<rparr>],
         sumtotal_txt = Some ''7''\<rparr>,
        \<lparr>new_views = 5, cumulative = 7\<rparr>)"
    by (simp add: run_eval)
  from one_row_per_video [OF run] run show ?thesis
    by auto
qed

subsection \<open>The claims about the fetcher and the catalogue\<close>

text \<open>
  C8. For every list of identifiers and every client, the fetcher does what the
  specification's reading \<open>spec_lookups\<close> does on \<open>spec_chunks 50\<close> of the list. These
  chunks are consecutive (their concatenation is the list), none is empty or longer than
  50, and there are \<open>\<lceil>length / 50\<rceil>\<close> of them. One lookup is issued per chunk, in order: a
  client that records its requests, and whose answers can all be converted, has recorded
  at the end the comma-joined chunks and nothing else, and the fetcher returns the pairs of
  the items of its answers, concatenated in response order. A request names the
  identifiers of its chunk: split at the commas it gives them back. An item without a view
  count gets \<open>current_views = 0\<close>; an item whose count is the decimal text of \<open>n\<close> gets
  \<open>n\<close>, and in general what \<open>int\<close> reads, or the fetch ends with \<open>ValueError\<close>.
\<close>

theorem fetch_in_chunks_of_50:
  "fetch_current_views youtube video_ids st = spec_lookups youtube (spec_chunks 50 video_ids) st \<and>
   concat (spec_chunks 50 video_ids) = video_ids \<and>
   (\<forall>c\<in>set (spec_chunks 50 video_ids). c \<noteq> [] \<and> length c \<le> 50) \<and>
   length (spec_chunks 50 video_ids) = (length video_ids + 49) div 50 \<and>
   ((\<forall>req. \<exists>items. resp req = Inr items \<and> list_all spec_readable items) \<longrightarrow>
      fetch_current_views (\<lambda>log req. (resp req, log @ [req])) video_ids [] =
        (Inr (concat (map (\<lambda>c. map spec_pair (projr (resp (join_comma c))))
                (spec_chunks 50 video_ids))),
         map join_comma (spec_chunks 50 video_ids))) \<and>
   (c \<noteq> [] \<and> (\<forall>x\<in>set c. CHR '','' \<notin> set x) \<longrightarrow> split_comma (join_comma c) = c) \<and>
   item_stat \<lparr>item_id = i, viewCount = None\<rparr> = Inr \<lparr>stat_video_id = i, current_views = 0\<rparr> \<and>
   item_stat \<lparr>item_id = i, viewCount = Some (py_str n)\<rparr> =
     Inr \<lparr>stat_video_id = i, current_views = n\<rparr> \<and>
   (\<forall>s. item_stat \<lparr>item_id = i, viewCount = Some s\<rparr> =
      (case py_int s of
         Some m \<Rightarrow> Inr \<lparr>stat_video_id = i, current_views = m\<rparr>
       | None \<Rightarrow> Inl ValueError))"
proof -
  have eq: "fetch_current_views client video_ids st' =
      spec_lookups client (spec_chunks 50 video_ids) st'" for client :: "'b client" and st'
    using fetch_loop_chunks [of client video_ids 0 "[]" st']
    by (simp add: fetch_current_views_def split: prod.splits sum.splits)
  have sizes: "\<forall>c\<in>set (spec_chunks 50 video_ids). c \<noteq> [] \<and> length c \<le> 50"
    using chunks_sizes [of 50 _ video_ids] by simp
  have count: "length (spec_chunks 50 video_ids) = (length video_ids + 49) div 50"
    using length_chunks [of 50 video_ids] by simp
  have log: "fetch_current_views (\<lambda>log req. (resp req, log @ [req])) video_ids [] =
        (Inr (concat (map (\<lambda>c. map spec_pair (projr (resp (join_comma c))))
                (spec_chunks 50 video_ids))),
         map join_comma (spec_chunks 50 video_ids))"
    if "\<forall>req. \<exists>items. resp req = Inr items \<and> list_all spec_readable items"
    using spec_lookups_log [OF that, of "spec_chunks 50 video_ids" "[]"]
    by (simp add: eq join_comma_request)
  have split: "split_comma (join_comma c) = c" if "c \<noteq> []" and "\<forall>x\<in>set c. CHR '','' \<notin> set x"
    using that by (rule split_join_comma)
  have missing: "item_stat \<lparr>item_id = i, viewCount = None\<rparr> =
      Inr \<lparr>stat_video_id = i, current_views = 0\<rparr>"
    by (simp add: item_stat_def)
  have decimal: "item_stat \<lparr>item_id = i, viewCount = Some (py_str n)\<rparr> =
      Inr \<lparr>stat_video_id = i, current_views = n\<rparr>"
    by (simp add: item_stat_def py_int_py_str)
  have present: "\<forall>s. item_stat \<lparr>item_id = i, viewCount = Some s\<rparr> =
      (case py_int s of
         Some m \<Rightarrow> Inr \<lparr>stat_video_id = i, current_views = m\<rparr>
       | None \<Rightarrow> Inl ValueError)"
    by (simp add: item_stat_def split: option.splits)
  from eq [of youtube st] sizes count log split missing decimal present show ?thesis
    by (simp only: concat_chunks [of 50 video_ids, simplified]) blast
qed

theorem fetch_in_chunks_of_50_witness:
  "spec_chunks 50 [''a'', ''b'', ''c''] = [[''a'', ''b'', ''c'']] \<and>
   length [''a'', ''b'', ''c''] \<le> 50 \<and>
   list_all spec_readable
     [\<lparr>item_id = ''a'', viewCount = Some ''123''\<rparr>, \<lparr>item_id = ''b'', viewCount = None\<rparr>] \<and>
   CHR '','' \<notin> set ''a'' \<and> CHR '','' \<notin> set ''b'' \<and> CHR '','' \<notin> set ''c'' \<and>
   fetch_current_views
     (\<lambda>log req. (Inr [\<lparr>item_id = ''a'', viewCount = Some ''123''\<rparr>,
                      \<lparr>item_id = ''b'', viewCount = None\<rparr>], log @ [req]))
     [''a'', ''b'', ''c''] [] =
   (Inr [\<lparr>stat_video_id = ''a'', current_views = 123\<rparr>, \<lparr>stat_video_id = ''b'', current_views = 0\<rparr>],
    [''a,b,c'']) \<and>
   split_comma ''a,b,c'' = [''a'', ''b'', ''c'']"
proof -
  let ?items = "[\<lparr>item_id = ''a'', viewCount = Some ''123''\<rparr>, \<lparr>item_id = ''b'', viewCount = None\<rparr>]"
  have "spec_chunks 50 [''a'', ''b'', ''c''] = [''a'', ''b'', ''c''] # spec_chunks 50 []"
    by (subst spec_chunks.simps) simp
  also have "spec_chunks 50 ([] :: string list) = []"
    by (subst spec_chunks.simps) simp
  finally have ch: "spec_chunks 50 [''a'', ''b'', ''c''] = [[''a'', ''b'', ''c'']]" .
  have n: "py_int ''123'' = Some 123"
    by (simp add: py_int_def int_strip_def int_space_def digits_def is_digit_def digit_val_def)
  have readable: "list_all spec_readable ?items"
    by (simp add: spec_readable_def n)
  then have answers: "\<forall>req :: string. \<exists>items.
      (Inr ?items :: py_error + api_item list) = Inr items \<and> list_all spec_readable items"
    by blast
  have pairs: "spec_pair \<lparr>item_id = ''a'', viewCount = Some ''123''\<rparr> =
      \<lparr>stat_video_id = ''a'', current_views = 123\<rparr>"
    "spec_pair \<lparr>item_id = ''b'', viewCount = None\<rparr> = \<lparr>stat_video_id = ''b'', current_views = 0\<rparr>"
    by (simp_all add: spec_pair_def n)
  have commas: "[''a'', ''b'', ''c''] \<noteq> [] \<and> (\<forall>x\<in>set [''a'', ''b'', ''c'']. CHR '','' \<notin> set x)"
    by simp
  from fetch_in_chunks_of_50 [of "\<lambda>st req. (Inl ValueError, st)"
      "[''a'', ''b'', ''c'']" "()" "\<lambda>req. Inr ?items" "[''a'', ''b'', ''c'']" "''v''" 0]
    answers commas
  have "fetch_current_views (\<lambda>log req. (Inr ?items, log @ [req])) [''a'', ''b'', ''c''] [] =
      (Inr [\<lparr>stat_video_id = ''a'', current_views = 123\<rparr>, \<lparr>stat_video_id = ''b'', current_views = 0\<rparr>],
       [''a,b,c''])"
    and "split_comma ''a,b,c'' = [''a'', ''b'', ''c'']"
    unfolding ch by (simp_all add: pairs)
  with ch readable show ?thesis
    by simp
qed

text \<open>
  C6. The catalogue is meant to hold every id once. \<open>save_videos_csv\<close> compares the
  discovered ids with the ids read from the file before the loop only, so a list that
  repeats an id not yet in the file is appended with the repetition: on an absent catalogue
  and a list holding the same video twice, the table written has two rows with the same id.
  (When no list repeats an id, the ids stay distinct: \<open>save_all_distinct\<close>.)
\<close>

theorem save_videos_csv_repeated_id:
  "videos_csv (save_videos_csv
     [\<lparr>video_id = ''A'', title = ''first'', published_at = ''2024-01-01T00:00:00Z''\<rparr>,
      \<lparr>video_id = ''A'', title = ''first'', published_at = ''2024-01-01T00:00:00Z''\<rparr>] no_files) =
   Table [\<lparr>video_id = ''A'', title = ''first'', published_at = ''2024-01-01T00:00:00Z''\<rparr>,
      \<lparr>video_id = ''A'', title = ''first'', published_at = ''2024-01-01T00:00:00Z''\<rparr>] \<and>
   \<not> distinct (map video_id (csv_rows (videos_csv (save_videos_csv
     [\<lparr>video_id = ''A'', title = ''first'', published_at = ''2024-01-01T00:00:00Z''\<rparr>,
      \<lparr>video_id = ''A'', title = ''first'', published_at = ''2024-01-01T00:00:00Z''\<rparr>] no_files))))"
  by (simp add: save_videos_csv_def no_files_def Let_def)

end
